theory Spec2Isabelle
  imports Complex_Main "HOL-Library.Word" "HOL-Library.Sublist" "HOL-Library.AList"
begin

section \<open>Machine numbers\<close>

text \<open>
  \<^verbatim>\<open>int64\<close> is a 64-bit word read as signed. A \<^verbatim>\<open>float64\<close> is an IEEE 754 binary64 value:
  a finite one is the rational it denotes, and there are the two infinities and NaN (the
  sign of zero is not kept: nothing here divides by zero or prints a float).
\<close>

type_synonym int64 = "64 word"

datatype float64 = Finite rat | PosInf | NegInf | NaN

text \<open>Number of binary digits of a positive integer.\<close>

function bit_length :: "int \<Rightarrow> nat" where
  "bit_length n = (if n \<le> 0 then 0 else Suc (bit_length (n div 2)))"
  by pat_completeness auto
termination
  by (relation "measure nat") auto

declare bit_length.simps [simp del]

text \<open>\<open>ilog2 q\<close> is the exponent \<open>e\<close> with \<open>2^e \<le> q < 2^(e+1)\<close>, for \<open>q > 0\<close>.\<close>

definition ilog2 :: "rat \<Rightarrow> int" where
  "ilog2 q = (if 1 \<le> q then int (bit_length \<lfloor>q\<rfloor>) - 1
              else - int (bit_length (\<lceil>1 / q\<rceil> - 1)))"

definition pow2 :: "int \<Rightarrow> rat" where
  "pow2 e = (if 0 \<le> e then 2 ^ nat e else 1 / 2 ^ nat (- e))"

definition round_half_even :: "rat \<Rightarrow> int" where
  "round_half_even x =
     (let f = \<lfloor>x\<rfloor>; d = x - of_int f
      in if d < 1 / 2 then f else if 1 / 2 < d then f + 1 else if even f then f else f + 1)"

text \<open>
  Rounding a rational to binary64, to nearest and ties to even: 53 significant bits, the
  exponent not below that of the subnormal numbers, and an infinity when the rounded value
  reaches \<open>2^1024\<close>. This is the rounding of every float64 operation and of
  \<^verbatim>\<open>strconv.ParseFloat\<close>.
\<close>

definition round_to_float64 :: "rat \<Rightarrow> float64" where
  "round_to_float64 q =
     (if q = 0 then Finite 0
      else let a = \<bar>q\<bar>;
               e = max (ilog2 a) (- 1022);
               ulp = pow2 (e - 52);
               r = of_int (round_half_even (a / ulp)) * ulp
           in if pow2 1024 \<le> r then (if 0 < q then PosInf else NegInf)
              else Finite (if 0 < q then r else - r))"

text \<open>\<^verbatim>\<open>float64(n)\<close> for an \<^verbatim>\<open>int64\<close> \<open>n\<close>.\<close>

definition float64_of_int64 :: "int64 \<Rightarrow> float64" where
  "float64_of_int64 n = round_to_float64 (of_int (sint n))"

text \<open>The float64 product \<^verbatim>\<open>x * y\<close>.\<close>

fun float64_mul :: "float64 \<Rightarrow> float64 \<Rightarrow> float64" where
  "float64_mul NaN y = NaN"
| "float64_mul x NaN = NaN"
| "float64_mul (Finite a) (Finite b) = round_to_float64 (a * b)"
| "float64_mul (Finite a) PosInf = (if a = 0 then NaN else if 0 < a then PosInf else NegInf)"
| "float64_mul (Finite a) NegInf = (if a = 0 then NaN else if 0 < a then NegInf else PosInf)"
| "float64_mul PosInf (Finite b) = (if b = 0 then NaN else if 0 < b then PosInf else NegInf)"
| "float64_mul NegInf (Finite b) = (if b = 0 then NaN else if 0 < b then NegInf else PosInf)"
| "float64_mul PosInf PosInf = PosInf"
| "float64_mul PosInf NegInf = NegInf"
| "float64_mul NegInf PosInf = NegInf"
| "float64_mul NegInf NegInf = PosInf"

text \<open>The comparison \<^verbatim>\<open>x <= y\<close> of float64 values: false when either is NaN.\<close>

fun float64_le :: "float64 \<Rightarrow> float64 \<Rightarrow> bool" where
  "float64_le NaN y = False"
| "float64_le x NaN = False"
| "float64_le NegInf y = True"
| "float64_le x PosInf = True"
| "float64_le (Finite a) (Finite b) = (a \<le> b)"
| "float64_le x y = False"

text \<open>\<^verbatim>\<open>math.Min(x, y)\<close>, with its special cases in the order of the library.\<close>

definition math_Min :: "float64 \<Rightarrow> float64 \<Rightarrow> float64" where
  "math_Min x y =
     (if x = NegInf \<or> y = NegInf then NegInf
      else if x = NaN \<or> y = NaN then NaN
      else if float64_le x y then x else y)"

text \<open>
  The conversion \<^verbatim>\<open>int64(f)\<close> truncates towards zero. When the truncated value is not an
  \<^verbatim>\<open>int64\<close> (or \<open>f\<close> is an infinity or NaN) the Go specification leaves the result to the
  implementation: it is the value \<open>arch f\<close> of a parameter.
\<close>

definition int64_of_float64 :: "(float64 \<Rightarrow> int64) \<Rightarrow> float64 \<Rightarrow> int64" where
  "int64_of_float64 arch f =
     (case f of
        Finite q \<Rightarrow>
          (let t = (if 0 \<le> q then \<lfloor>q\<rfloor> else \<lceil>q\<rceil>)
           in if - (2 ^ 63) \<le> t \<and> t < 2 ^ 63 then word_of_int t else arch f)
      | _ \<Rightarrow> arch f)"

text \<open>\<^verbatim>\<open>%d\<close> of \<^verbatim>\<open>fmt\<close>: an integer in decimal.\<close>

function itoa_nat :: "int \<Rightarrow> string" where
  "itoa_nat n =
     (if n < 10 then [''0123456789'' ! nat n]
      else itoa_nat (n div 10) @ [''0123456789'' ! nat (n mod 10)])"
  by pat_completeness auto
termination
  by (relation "measure nat") auto

declare itoa_nat.simps [simp del]

definition itoa :: "int \<Rightarrow> string" where
  "itoa i = (if i < 0 then ''-'' @ itoa_nat (- i) else itoa_nat i)"

section \<open>Errors\<close>

text \<open>
  A Go \<^verbatim>\<open>error\<close> value that is not nil. The three shapes the library produces or
  inspects: an opaque error with a text (\<^verbatim>\<open>errors.New\<close>, the subprocess's exit error),
  a \<^verbatim>\<open>*ValidationError{Field, Message}\<close>, and an error with a text of its own whose
  \<^verbatim>\<open>Unwrap\<close> gives another error (\<^verbatim>\<open>fmt.Errorf\<close> with \<^verbatim>\<open>%w\<close>, \<^verbatim>\<open>*ClassifiedError\<close>).
  The nil error is \<open>None\<close> of \<open>error option\<close>.
\<close>

datatype error =
    New string
  | ValidationError string string
  | Wrapped string error

fun Error_text :: "error \<Rightarrow> string" where
  "Error_text (New s) = s"
| "Error_text (ValidationError field message) = field @ '': '' @ message"
| "Error_text (Wrapped s e) = s"

fun Unwrap :: "error \<Rightarrow> error option" where
  "Unwrap (Wrapped s e) = Some e"
| "Unwrap e = None"

text \<open>\<^verbatim>\<open>fmt.Errorf(prefix + "%w", err)\<close>: the text is the prefix followed by the text of
  the wrapped error.\<close>

definition Errorf_w :: "string \<Rightarrow> error \<Rightarrow> error" where
  "Errorf_w pre e = Wrapped (pre @ Error_text e) e"

text \<open>\<^verbatim>\<open>errors.As(err, &valErr)\<close> with \<^verbatim>\<open>valErr *ValidationError\<close>: walks the
  \<^verbatim>\<open>Unwrap\<close> chain.\<close>

fun As_ValidationError :: "error \<Rightarrow> bool" where
  "As_ValidationError (New s) = False"
| "As_ValidationError (ValidationError field message) = True"
| "As_ValidationError (Wrapped s e) = As_ValidationError e"

section \<open>Transfer store (Manager)\<close>

datatype Status = StatusPending | StatusInProgress | StatusCompleted | StatusFailed

text \<open>A \<^verbatim>\<open>time.Time\<close> is a timestamp, the zero time being \<open>0\<close>.\<close>

type_synonym Time = int

record Transfer =
  ID :: string
  Source :: string
  Destination :: string
  Status :: Status
  Progress :: float64
  BytesTotal :: int64
  BytesCopied :: int64
  StartTime :: Time
  EndTime :: Time
  Error :: "error option"

text \<open>
  The Go map \<^verbatim>\<open>transfers map[string]*Transfer\<close> is an association list with one entry
  per key (\<open>AList.update\<close> overwrites in place), so that \<^verbatim>\<open>range m.transfers\<close> can be
  computed; \<^verbatim>\<open>order\<close> is the slice of ids. The mutex is not modelled: every operation
  runs under it from start to end, so operations are atomic steps on the state.
\<close>

record Manager =
  transfers :: "(string \<times> Transfer) list"
  order :: "string list"

definition NewManager :: Manager where
  "NewManager = \<lparr> transfers = [], order = [] \<rparr>"

definition new_transfer :: "string \<Rightarrow> string \<Rightarrow> string \<Rightarrow> Transfer" where
  "new_transfer tid source destination =
     \<lparr> ID = tid, Source = source, Destination = destination, Status = StatusPending,
       Progress = Finite 0, BytesTotal = 0, BytesCopied = 0, StartTime = 0, EndTime = 0,
       Error = None \<rparr>"

definition Add :: "Manager \<Rightarrow> string \<Rightarrow> string \<Rightarrow> string \<Rightarrow> Transfer \<times> Manager" where
  "Add m tid source destination =
     (let t = new_transfer tid source destination
      in (t, m\<lparr> transfers := AList.update tid t (transfers m), order := order m @ [tid] \<rparr>))"

text \<open>\<^verbatim>\<open>time.Now()\<close> is the argument \<open>now\<close> of the operations that read the clock.\<close>

definition Start :: "Manager \<Rightarrow> string \<Rightarrow> Time \<Rightarrow> Manager" where
  "Start m tid now =
     (case map_of (transfers m) tid of
        Some t \<Rightarrow> m\<lparr> transfers :=
                     AList.update tid (t\<lparr> Status := StatusInProgress, StartTime := now \<rparr>) (transfers m) \<rparr>
      | None \<Rightarrow> m)"

definition UpdateProgress :: "Manager \<Rightarrow> string \<Rightarrow> float64 \<Rightarrow> int64 \<Rightarrow> int64 \<Rightarrow> Manager" where
  "UpdateProgress m tid progress bytesCopied bytesTotal =
     (case map_of (transfers m) tid of
        Some t \<Rightarrow> m\<lparr> transfers :=
                     AList.update tid (t\<lparr> Progress := progress, BytesCopied := bytesCopied,
                                         BytesTotal := bytesTotal \<rparr>) (transfers m) \<rparr>
      | None \<Rightarrow> m)"

definition Complete :: "Manager \<Rightarrow> string \<Rightarrow> Time \<Rightarrow> Manager" where
  "Complete m tid now =
     (case map_of (transfers m) tid of
        Some t \<Rightarrow> m\<lparr> transfers :=
                     AList.update tid (t\<lparr> Status := StatusCompleted, Progress := Finite 100,
                                         EndTime := now \<rparr>) (transfers m) \<rparr>
      | None \<Rightarrow> m)"

definition Fail :: "Manager \<Rightarrow> string \<Rightarrow> error option \<Rightarrow> Time \<Rightarrow> Manager" where
  "Fail m tid err now =
     (case map_of (transfers m) tid of
        Some t \<Rightarrow> m\<lparr> transfers :=
                     AList.update tid (t\<lparr> Status := StatusFailed, EndTime := now,
                                         Error := err \<rparr>) (transfers m) \<rparr>
      | None \<Rightarrow> m)"

definition Get :: "Manager \<Rightarrow> string \<Rightarrow> Transfer option" where
  "Get m tid = map_of (transfers m) tid"

fun GetAll_loop :: "Manager \<Rightarrow> string list \<Rightarrow> Transfer list \<Rightarrow> Transfer list" where
  "GetAll_loop m [] result = result"
| "GetAll_loop m (tid # tids) result =
     (case map_of (transfers m) tid of
        Some t \<Rightarrow> GetAll_loop m tids (result @ [t])
      | None \<Rightarrow> GetAll_loop m tids result)"

definition GetAll :: "Manager \<Rightarrow> Transfer list" where
  "GetAll m = GetAll_loop m (order m) []"

text \<open>\<^verbatim>\<open>Stats\<close>: one pass over the map's values, four counters.\<close>

fun Stats_loop :: "Transfer list \<Rightarrow> nat \<times> nat \<times> nat \<times> nat \<Rightarrow> nat \<times> nat \<times> nat \<times> nat" where
  "Stats_loop [] acc = acc"
| "Stats_loop (t # ts) (pending, inProgress, completed, failed) =
     (case Status t of
        StatusPending \<Rightarrow> Stats_loop ts (pending + 1, inProgress, completed, failed)
      | StatusInProgress \<Rightarrow> Stats_loop ts (pending, inProgress + 1, completed, failed)
      | StatusCompleted \<Rightarrow> Stats_loop ts (pending, inProgress, completed + 1, failed)
      | StatusFailed \<Rightarrow> Stats_loop ts (pending, inProgress, completed, failed + 1))"

definition Stats :: "Manager \<Rightarrow> nat \<times> nat \<times> nat \<times> nat" where
  "Stats m = Stats_loop (map snd (transfers m)) (0, 0, 0, 0)"

text \<open>The store operations as a datatype, to quantify over "any operation".\<close>

datatype store_op =
    OpAdd string string string
  | OpStart string Time
  | OpUpdateProgress string float64 int64 int64
  | OpComplete string Time
  | OpFail string "error option" Time

fun apply_op :: "Manager \<Rightarrow> store_op \<Rightarrow> Manager" where
  "apply_op m (OpAdd tid source destination) = snd (Add m tid source destination)"
| "apply_op m (OpStart tid now) = Start m tid now"
| "apply_op m (OpUpdateProgress tid p c t) = UpdateProgress m tid p c t"
| "apply_op m (OpComplete tid now) = Complete m tid now"
| "apply_op m (OpFail tid err now) = Fail m tid err now"

fun op_id :: "store_op \<Rightarrow> string" where
  "op_id (OpAdd tid source destination) = tid"
| "op_id (OpStart tid now) = tid"
| "op_id (OpUpdateProgress tid p c t) = tid"
| "op_id (OpComplete tid now) = tid"
| "op_id (OpFail tid err now) = tid"

definition terminal :: "Status \<Rightarrow> bool" where
  "terminal s = (s = StatusCompleted \<or> s = StatusFailed)"

text \<open>The states every store built by the operations is in: one map entry per key, each record
  filed under its own \<open>ID\<close>, and the keys are exactly the ids in \<open>order\<close>.\<close>

definition wf_store :: "Manager \<Rightarrow> bool" where
  "wf_store m = (distinct (map fst (transfers m)) \<and>
                 list_all (\<lambda>(k, r). ID r = k) (transfers m) \<and>
                 set (map fst (transfers m)) = set (order m))"

definition stats_total :: "nat \<times> nat \<times> nat \<times> nat \<Rightarrow> nat" where
  "stats_total s = (case s of (pending, inProgress, completed, failed) \<Rightarrow>
                      pending + inProgress + completed + failed)"

text \<open>Example stores.\<close>

definition store_t1 :: Manager where
  "store_t1 = snd (Add NewManager ''t1'' ''src'' ''dst'')"

definition store_t1_completed :: Manager where
  "store_t1_completed = Complete store_t1 ''t1'' 5"

section \<open>Strings\<close>

text \<open>
  A Go string is its bytes. \<^verbatim>\<open>strings.ToLower\<close> and \<^verbatim>\<open>strings.ToUpper\<close> of the Go
  library map the letters of every script. On a string of ASCII bytes they change the case
  of the letters \<open>A\<close> to \<open>Z\<close> and \<open>a\<close> to \<open>z\<close> and keep every other byte: \<open>ToLower\<close> and
  \<open>ToUpper\<close> below are the two functions on such strings, and are used on such strings only.
\<close>

definition is_ascii :: "string \<Rightarrow> bool" where
  "is_ascii s = list_all (\<lambda>c. \<not> digit7 c) s"

definition ascii_lower :: string where
  "ascii_lower = ''abcdefghijklmnopqrstuvwxyz''"

definition ascii_upper :: string where
  "ascii_upper = ''ABCDEFGHIJKLMNOPQRSTUVWXYZ''"

definition lower_of :: "char \<Rightarrow> char" where
  "lower_of c = (case map_of (zip ascii_upper ascii_lower) c of Some l \<Rightarrow> l | None \<Rightarrow> c)"

definition upper_of :: "char \<Rightarrow> char" where
  "upper_of c = (case map_of (zip ascii_lower ascii_upper) c of Some u \<Rightarrow> u | None \<Rightarrow> c)"

definition ToLower :: "string \<Rightarrow> string" where
  "ToLower s = map lower_of s"

definition ToUpper :: "string \<Rightarrow> string" where
  "ToUpper s = map upper_of s"

text \<open>\<^verbatim>\<open>strings.Contains(s, substr)\<close>: \<open>substr\<close> starts at some position of \<open>s\<close>.\<close>

fun Contains :: "string \<Rightarrow> string \<Rightarrow> bool" where
  "Contains [] substr = (substr = [])"
| "Contains (c # s) substr = (prefix substr (c # s) \<or> Contains s substr)"

section \<open>Error classifier\<close>

datatype ErrorType =
    ErrorTypeNetwork
  | ErrorTypeTimeout
  | ErrorTypeAuth
  | ErrorTypeNotFound
  | ErrorTypeFileSystem
  | ErrorTypeInvalidInput
  | ErrorTypeInsufficientSpace
  | ErrorTypeUnknown

record ClassifiedError =
  Type :: ErrorType
  Err :: error
  Retryable :: bool
  Temporary :: bool

text \<open>\<^verbatim>\<open>ClassifyError\<close>: nil for nil; the checks in the order of the source. The
  library's \<^verbatim>\<open>strings.ToLower\<close> is the argument \<open>toLower\<close>: the classifier is the same
  function of it whatever it does to the text.\<close>

fun ClassifyError :: "(string \<Rightarrow> string) \<Rightarrow> error option \<Rightarrow> ClassifiedError option" where
  "ClassifyError toLower None = None"
| "ClassifyError toLower (Some err) =
     (let errStr = toLower (Error_text err) in
      if As_ValidationError err then
        Some \<lparr>Type = ErrorTypeInvalidInput, Err = err, Retryable = False, Temporary = False\<rparr>
      else if Contains errStr ''network'' \<or>
              Contains errStr ''connection'' \<or>
              Contains errStr ''dial'' \<or>
              Contains errStr ''no route to host'' \<or>
              Contains errStr ''host is down'' then
        Some \<lparr>Type = ErrorTypeNetwork, Err = err, Retryable = True, Temporary = True\<rparr>
      else if Contains errStr ''timeout'' \<or>
              Contains errStr ''deadline exceeded'' \<or>
              Contains errStr ''i/o timeout'' then
        Some \<lparr>Type = ErrorTypeTimeout, Err = err, Retryable = True, Temporary = True\<rparr>
      else if Contains errStr ''auth'' \<or>
              Contains errStr ''unauthorized'' \<or>
              Contains errStr ''forbidden'' \<or>
              Contains errStr ''permission denied'' \<or>
              Contains errStr ''access denied'' then
        Some \<lparr>Type = ErrorTypeAuth, Err = err, Retryable = False, Temporary = False\<rparr>
      else if Contains errStr ''not found'' \<or>
              Contains errStr ''no such file'' \<or>
              Contains errStr ''does not exist'' \<or>
              Contains errStr ''404'' then
        Some \<lparr>Type = ErrorTypeNotFound, Err = err, Retryable = False, Temporary = False\<rparr>
      else if Contains errStr ''no space left'' \<or>
              Contains errStr ''insufficient space'' \<or>
              Contains errStr ''disk full'' \<or>
              Contains errStr ''quota exceeded'' then
        Some \<lparr>Type = ErrorTypeInsufficientSpace, Err = err, Retryable = False, Temporary = False\<rparr>
      else if Contains errStr ''filesystem'' \<or>
              Contains errStr ''i/o error'' \<or>
              Contains errStr ''read-only'' then
        Some \<lparr>Type = ErrorTypeFileSystem, Err = err, Retryable = False, Temporary = False\<rparr>
      else
        Some \<lparr>Type = ErrorTypeUnknown, Err = err, Retryable = True, Temporary = False\<rparr>)"

text \<open>The keyword sets of the rules, for stating properties of the classifier.\<close>

definition network_keywords :: "string list" where
  "network_keywords = [''network'', ''connection'', ''dial'', ''no route to host'', ''host is down'']"

definition timeout_keywords :: "string list" where
  "timeout_keywords = [''timeout'', ''deadline exceeded'', ''i/o timeout'']"

definition auth_keywords :: "string list" where
  "auth_keywords = [''auth'', ''unauthorized'', ''forbidden'', ''permission denied'', ''access denied'']"

definition notfound_keywords :: "string list" where
  "notfound_keywords = [''not found'', ''no such file'', ''does not exist'', ''404'']"

definition space_keywords :: "string list" where
  "space_keywords = [''no space left'', ''insufficient space'', ''disk full'', ''quota exceeded'']"

definition filesystem_keywords :: "string list" where
  "filesystem_keywords = [''filesystem'', ''i/o error'', ''read-only'']"

definition has_keyword :: "(string \<Rightarrow> string) \<Rightarrow> string list \<Rightarrow> error \<Rightarrow> bool" where
  "has_keyword toLower kws err = list_ex (Contains (toLower (Error_text err))) kws"

section \<open>Execution driver: the argument vector\<close>

text \<open>\<^verbatim>\<open>RcloneCommand\<close> is a string type; the five verbs are its constants. The
  \<^verbatim>\<open>Context\<close> field is the cancellation signal, which the retry controller's model takes
  from its environment.\<close>

type_synonym RcloneCommand = string

definition RcloneCopy :: RcloneCommand where "RcloneCopy = ''copy''"
definition RcloneCopyTo :: RcloneCommand where "RcloneCopyTo = ''copyto''"
definition RcloneMove :: RcloneCommand where "RcloneMove = ''move''"
definition RcloneMoveTo :: RcloneCommand where "RcloneMoveTo = ''moveto''"
definition RcloneSync :: RcloneCommand where "RcloneSync = ''sync''"

record RcloneOptions =
  Command :: RcloneCommand
  Source_opt :: string
  Destination_opt :: string
  Flags :: "string list"
  StatsInterval :: string
  DryRun :: bool

text \<open>The first part of \<^verbatim>\<open>Executor.Execute\<close>: the \<open>args\<close> handed to
  \<^verbatim>\<open>exec.CommandContext(ctx, "rclone", args...)\<close>, built by the same appends.\<close>

definition Execute_args :: "RcloneOptions \<Rightarrow> string list" where
  "Execute_args opts =
     (let args0 = [Command opts, ''-v''];
          statsInterval = (if StatsInterval opts = '''' then ''500ms'' else StatsInterval opts);
          args1 = args0 @ [''--stats'', statsInterval];
          args2 = (if DryRun opts then args1 @ [''--dry-run''] else args1);
          args3 = args2 @ Flags opts;
          args4 = args3 @ [Source_opt opts, Destination_opt opts]
      in args4)"

section \<open>Retry controller\<close>

text \<open>A \<^verbatim>\<open>time.Duration\<close> is an \<^verbatim>\<open>int64\<close> count of nanoseconds.\<close>

type_synonym Duration = int64

definition Second :: Duration where
  "Second = 1000000000"

record RetryConfig =
  MaxAttempts :: int
  InitialDelay :: Duration
  MaxDelay :: Duration
  Multiplier :: float64

definition DefaultRetryConfig :: RetryConfig where
  "DefaultRetryConfig =
     \<lparr> MaxAttempts = 3, InitialDelay = 2 * Second, MaxDelay = 30 * Second,
       Multiplier = Finite 2 \<rparr>"

text \<open>The four checks at the head of \<^verbatim>\<open>ExecuteWithRetry\<close>, which overwrite the fields of
  its copy of the configuration.\<close>

definition retry_validate :: "RetryConfig \<Rightarrow> RetryConfig" where
  "retry_validate retryCfg =
     (let c1 = (if MaxAttempts retryCfg \<le> 0 then retryCfg\<lparr>MaxAttempts := 1\<rparr> else retryCfg);
          c2 = (if InitialDelay c1 \<le>s 0 then c1\<lparr>InitialDelay := 2 * Second\<rparr> else c1);
          c3 = (if MaxDelay c2 \<le>s 0 then c2\<lparr>MaxDelay := 30 * Second\<rparr> else c2);
          c4 = (if float64_le (Multiplier c3) (Finite 0) then c3\<lparr>Multiplier := Finite 2\<rparr> else c3)
      in c4)"

text \<open>
  What \<^verbatim>\<open>ExecuteWithRetry\<close> does to the outside, as operations on a world \<open>'w\<close>:
  \<^item> \<open>Execute\<close>: one call of \<^verbatim>\<open>e.Execute(transferID, opts)\<close>, which runs the subprocess and
    returns its error (\<open>None\<close> is nil);
  \<^item> \<open>ctx_Done\<close>: whether \<^verbatim>\<open>ctx.Done()\<close> is ready at the non-blocking \<^verbatim>\<open>select\<close>;
  \<^item> \<open>ctx_Err\<close>: \<^verbatim>\<open>ctx.Err()\<close>;
  \<^item> \<open>wait\<close>: the blocking \<^verbatim>\<open>select\<close> between \<^verbatim>\<open>ctx.Done()\<close> and
    \<^verbatim>\<open>time.After(delay)\<close>, true when the cancellation wins;
  \<^item> \<open>arch\<close>: the platform's conversion of an out-of-range float64 to \<^verbatim>\<open>int64\<close>.
\<close>

record 'w retry_env =
  Execute :: "'w \<Rightarrow> error option \<times> 'w"
  ctx_Done :: "'w \<Rightarrow> bool"
  ctx_Err :: "'w \<Rightarrow> error"
  wait :: "Duration \<Rightarrow> 'w \<Rightarrow> bool \<times> 'w"
  arch :: "float64 \<Rightarrow> int64"

text \<open>\<^verbatim>\<open>time.Duration(math.Min(float64(delay)*retryCfg.Multiplier, float64(retryCfg.MaxDelay)))\<close>\<close>

definition next_delay :: "(float64 \<Rightarrow> int64) \<Rightarrow> RetryConfig \<Rightarrow> Duration \<Rightarrow> Duration" where
  "next_delay conv retryCfg delay =
     int64_of_float64 conv
       (math_Min (float64_mul (float64_of_int64 delay) (Multiplier retryCfg))
                 (float64_of_int64 (MaxDelay retryCfg)))"

text \<open>The statement after the loop. \<^verbatim>\<open>%w\<close> of a nil error prints \<^verbatim>\<open>%!w(<nil>)\<close> and
  wraps nothing.\<close>

definition retry_failed :: "RetryConfig \<Rightarrow> error option \<Rightarrow> error" where
  "retry_failed retryCfg lastErr =
     (case lastErr of
        Some e \<Rightarrow> Errorf_w (''failed after '' @ itoa (MaxAttempts retryCfg) @ '' attempts: '') e
      | None \<Rightarrow> New (''failed after '' @ itoa (MaxAttempts retryCfg) @ '' attempts: %!w(<nil>)''))"

text \<open>
  The loop \<^verbatim>\<open>for attempt := 1; attempt <= retryCfg.MaxAttempts; attempt++\<close>, from the
  state at the head of an iteration. The result is the returned error, the number of calls of
  \<open>Execute\<close> made so far (\<open>calls\<close> counts them), and the world.
\<close>

function retry_loop ::
  "'w retry_env \<Rightarrow> RetryConfig \<Rightarrow> int \<Rightarrow> Duration \<Rightarrow> error option \<Rightarrow> nat \<Rightarrow> 'w
     \<Rightarrow> error option \<times> nat \<times> 'w" where
  "retry_loop env retryCfg attempt delay lastErr calls w =
     (if attempt \<le> MaxAttempts retryCfg then
        if ctx_Done env w then
          (case lastErr of
             Some e \<Rightarrow>
               (Some (Errorf_w (''context cancelled after '' @ itoa (attempt - 1) @ '' attempts: '') e),
                calls, w)
           | None \<Rightarrow> (Some (ctx_Err env w), calls, w))
        else
          (case Execute env w of
             (None, w1) \<Rightarrow> (None, calls + 1, w1)
           | (Some err, w1) \<Rightarrow>
               if attempt = MaxAttempts retryCfg then
                 (Some (retry_failed retryCfg (Some err)), calls + 1, w1)
               else
                 (case wait env delay w1 of
                    (True, w2) \<Rightarrow>
                      (Some (Errorf_w (''context cancelled after '' @ itoa attempt @ '' attempts: '') err),
                       calls + 1, w2)
                  | (False, w2) \<Rightarrow>
                      retry_loop env retryCfg (attempt + 1) (next_delay (arch env) retryCfg delay)
                        (Some err) (calls + 1) w2))
      else (Some (retry_failed retryCfg lastErr), calls, w))"
  by pat_completeness auto
termination
  by (relation "measure (\<lambda>(env, retryCfg, attempt, delay, lastErr, calls, w).
                    nat (MaxAttempts retryCfg + 1 - attempt))") auto

declare retry_loop.simps [simp del]

definition ExecuteWithRetry ::
  "'w retry_env \<Rightarrow> RetryConfig \<Rightarrow> 'w \<Rightarrow> error option \<times> nat \<times> 'w" where
  "ExecuteWithRetry env retryCfg w =
     (let cfg = retry_validate retryCfg
      in retry_loop env cfg 1 (InitialDelay cfg) None 0 w)"

text \<open>An environment for examples: the world counts the calls of \<open>Execute\<close>, every call
  fails with the subprocess's exit error, and the context is never cancelled.\<close>

definition always_failing :: "nat retry_env" where
  "always_failing =
     \<lparr> Execute = (\<lambda>w. (Some (New (''exit status '' @ itoa (int w + 1))), w + 1)),
       ctx_Done = (\<lambda>w. False),
       ctx_Err = (\<lambda>w. New ''context canceled''),
       wait = (\<lambda>d w. (False, w)),
       arch = (\<lambda>f. - (2 ^ 63)) \<rparr>"

text \<open>The zero value \<^verbatim>\<open>RetryConfig{}\<close>: every field unset.\<close>

definition zero_RetryConfig :: RetryConfig where
  "zero_RetryConfig = \<lparr> MaxAttempts = 0, InitialDelay = 0, MaxDelay = 0, Multiplier = Finite 0 \<rparr>"

text \<open>
  The world in which an attempt starts when the \<open>k\<close> attempts before it have each failed and
  been followed by a wait that ran to its end: each of them is one call of \<open>Execute\<close> and
  one \<open>wait\<close> with the delay of that round.
\<close>

fun retry_trace :: "'w retry_env \<Rightarrow> RetryConfig \<Rightarrow> nat \<Rightarrow> Duration \<Rightarrow> 'w \<Rightarrow> 'w" where
  "retry_trace env retryCfg 0 delay w = w"
| "retry_trace env retryCfg (Suc k) delay w =
     retry_trace env retryCfg k (next_delay (arch env) retryCfg delay)
       (snd (wait env delay (snd (Execute env w))))"

text \<open>An environment with a counter beside its world, which every call of \<open>Execute\<close>
  (and nothing else) increases: the number of invocations as the outside sees it.\<close>

definition count_calls :: "'w retry_env \<Rightarrow> ('w \<times> nat) retry_env" where
  "count_calls env =
     \<lparr> Execute = (\<lambda>(w, n). (fst (Execute env w), (snd (Execute env w), Suc n))),
       ctx_Done = (\<lambda>(w, n). ctx_Done env w),
       ctx_Err = (\<lambda>(w, n). ctx_Err env w),
       wait = (\<lambda>d (w, n). (fst (wait env d w), (snd (wait env d w), n))),
       arch = arch env \<rparr>"

section \<open>Progress stream decoder\<close>

subsection \<open>Size parsing\<close>

definition CR :: char where "CR = CHR 0x0D"
definition LF :: char where "LF = CHR 0x0A"

text \<open>\<^verbatim>\<open>strings.TrimSpace\<close> on a string of ASCII bytes: tab, line feed, vertical tab,
  form feed, carriage return and space are removed from both ends.\<close>

definition isSpace :: "char \<Rightarrow> bool" where
  "isSpace c = (c \<in> set [CHR 0x09, CHR 0x0A, CHR 0x0B, CHR 0x0C, CHR 0x0D, CHR 0x20])"

definition TrimSpace :: "string \<Rightarrow> string" where
  "TrimSpace s = rev (dropWhile isSpace (rev (dropWhile isSpace s)))"

definition TrimSuffix :: "string \<Rightarrow> string \<Rightarrow> string" where
  "TrimSuffix s suf = (if suffix suf s then take (length s - length suf) s else s)"

datatype NumError = ErrSyntax | ErrRange

definition digit_value :: "char \<Rightarrow> int option" where
  "digit_value c = map_of (zip ''0123456789'' [0, 1, 2, 3, 4, 5, 6, 7, 8, 9]) c"

definition isDigit :: "char \<Rightarrow> bool" where
  "isDigit c = (digit_value c \<noteq> None)"

text \<open>The number written by a string of decimal digits.\<close>

fun digits_value :: "string \<Rightarrow> int \<Rightarrow> int" where
  "digits_value [] acc = acc"
| "digits_value (c # cs) acc = digits_value cs (10 * acc + the (digit_value c))"

text \<open>
  \<^verbatim>\<open>strconv.ParseFloat(s, 64)\<close> on a string of digits and dots, which is all that the
  regular expression lets through: digits, at most one dot, at least one digit; the decimal
  value is rounded to the nearest float64, and a value that rounds to infinity is the range
  error. (On other strings the library function reads signs, exponents, hexadecimal forms,
  \<open>inf\<close> and \<open>nan\<close>; \<open>ParseFloat\<close> below is not used for them.)
\<close>

definition decimal_text :: "string \<Rightarrow> bool" where
  "decimal_text s = list_all (\<lambda>c. isDigit c \<or> c = CHR ''.'') s"

definition ParseFloat :: "string \<Rightarrow> NumError + float64" where
  "ParseFloat s =
     (let ip = takeWhile isDigit s;
          rest = dropWhile isDigit s;
          fp = (case rest of [] \<Rightarrow> [] | c # cs \<Rightarrow> cs)
      in if (rest \<noteq> [] \<and> hd rest \<noteq> CHR ''.'') \<or> \<not> list_all isDigit fp \<or> ip @ fp = []
         then Inl ErrSyntax
         else (case round_to_float64 (of_int (digits_value (ip @ fp) 0) / 10 ^ length fp) of
                 Finite q \<Rightarrow> Inr (Finite q)
               | _ \<Rightarrow> Inl ErrRange))"

text \<open>
  What the decoder takes from the Go library and the platform: \<^verbatim>\<open>strconv.ParseFloat(s, 64)\<close>
  (its error, when not nil, on the left), \<^verbatim>\<open>strings.ToUpper\<close>, \<^verbatim>\<open>strings.TrimSpace\<close>, and
  the platform's conversion of an out-of-range float64 to \<^verbatim>\<open>int64\<close>. The decoder is
  modelled for any such four functions.
\<close>

record golib =
  lib_ParseFloat :: "string \<Rightarrow> NumError + float64"
  lib_ToUpper :: "string \<Rightarrow> string"
  lib_TrimSpace :: "string \<Rightarrow> string"
  lib_int64 :: "float64 \<Rightarrow> int64"

text \<open>The library as Go documents it, as far as it is used here: on strings of digits and
  dots \<^verbatim>\<open>ParseFloat\<close> is \<open>ParseFloat\<close> above, and on strings of ASCII bytes
  \<^verbatim>\<open>ToUpper\<close> and \<^verbatim>\<open>TrimSpace\<close> are \<open>ToUpper\<close> and \<open>TrimSpace\<close> above.\<close>

definition golib_ok :: "golib \<Rightarrow> bool" where
  "golib_ok lib =
     ((\<forall>s. decimal_text s \<longrightarrow> lib_ParseFloat lib s = ParseFloat s) \<and>
      (\<forall>s. is_ascii s \<longrightarrow> lib_ToUpper lib s = ToUpper s) \<and>
      (\<forall>s. is_ascii s \<longrightarrow> lib_TrimSpace lib s = TrimSpace s))"

text \<open>The conversion of an out-of-range float64 on amd64: the smallest \<^verbatim>\<open>int64\<close>.\<close>

definition conv_amd64 :: "float64 \<Rightarrow> int64" where
  "conv_amd64 f = - (2 ^ 63)"

text \<open>A library for examples: the three functions above, and the conversion \<open>conv\<close>.\<close>

definition model_golib :: "(float64 \<Rightarrow> int64) \<Rightarrow> golib" where
  "model_golib conv =
     \<lparr> lib_ParseFloat = ParseFloat, lib_ToUpper = ToUpper, lib_TrimSpace = TrimSpace,
       lib_int64 = conv \<rparr>"

text \<open>\<^verbatim>\<open>parseSize\<close>\<close>

definition parseSize :: "golib \<Rightarrow> string \<Rightarrow> string \<Rightarrow> int64" where
  "parseSize lib val unit =
     (case lib_ParseFloat lib val of
        Inl err \<Rightarrow> 0
      | Inr v \<Rightarrow>
          (let unit1 = lib_ToUpper lib (lib_TrimSpace lib unit);
               unit2 = TrimSuffix unit1 ''B'';
               unit3 = TrimSuffix unit2 ''I'';
               multiplier :: int64 =
                 (if unit3 = ''K'' then 1024
                  else if unit3 = ''M'' then 1024 * 1024
                  else if unit3 = ''G'' then 1024 * 1024 * 1024
                  else if unit3 = ''T'' then 1024 * 1024 * 1024 * 1024
                  else if unit3 = ''P'' then 1024 * 1024 * 1024 * 1024 * 1024
                  else 1)
           in int64_of_float64 (lib_int64 lib) (float64_mul v (float64_of_int64 multiplier))))"

subsection \<open>The regular expression\<close>

text \<open>
  A regular expression of the shape of \<^verbatim>\<open>statsRegex\<close> is a sequence of items: a literal, a
  character class repeated between a lower and an optional upper bound (greedy), or a mark
  that records the current position in a capture slot. Matching backtracks over the
  repetition counts, the largest first: this is the match that Go's \<^verbatim>\<open>regexp\<close> returns
  (the leftmost one, and among those the one a backtracking search finds first).
\<close>

datatype rx_item = Lit string | Rep string nat "nat option" | Mark nat

text \<open>The first result of \<open>f k\<close> for \<open>k\<close> going down from the third argument to \<open>lo\<close>.\<close>

fun first_down :: "(nat \<Rightarrow> 'a option) \<Rightarrow> nat \<Rightarrow> nat \<Rightarrow> 'a option" where
  "first_down f lo 0 = (if lo = 0 then f 0 else None)"
| "first_down f lo (Suc k) =
     (if Suc k < lo then None
      else (case f (Suc k) of Some r \<Rightarrow> Some r | None \<Rightarrow> first_down f lo k))"

text \<open>The first result of \<open>f p\<close> for \<open>p\<close> going up from \<open>pos\<close>, over \<open>n + 1\<close> positions.\<close>

fun first_up :: "(nat \<Rightarrow> 'a option) \<Rightarrow> nat \<Rightarrow> nat \<Rightarrow> 'a option" where
  "first_up f pos 0 = f pos"
| "first_up f pos (Suc n) = (case f pos of Some r \<Rightarrow> Some r | None \<Rightarrow> first_up f (Suc pos) n)"

fun rx_run :: "rx_item list \<Rightarrow> string \<Rightarrow> nat \<Rightarrow> nat list \<Rightarrow> nat list option" where
  "rx_run [] s pos caps = Some caps"
| "rx_run (Mark k # items) s pos caps = rx_run items s pos (caps[k := pos])"
| "rx_run (Lit l # items) s pos caps =
     (if prefix l (drop pos s) then rx_run items s (pos + length l) caps else None)"
| "rx_run (Rep cls lo hi # items) s pos caps =
     (let n = length (takeWhile (\<lambda>c. c \<in> set cls) (drop pos s));
          m = (case hi of None \<Rightarrow> n | Some h \<Rightarrow> min h n)
      in first_down (\<lambda>k. rx_run items s (pos + k) caps) lo m)"

text \<open>\<^verbatim>\<open>\s\<close> of Go's syntax is \<^verbatim>\<open>[\t\n\f\r ]\<close>.\<close>

definition rx_space :: string where
  "rx_space = [CHR 0x09, CHR 0x0A, CHR 0x0C, CHR 0x0D, CHR 0x20]"

definition rx_unit :: "rx_item list" where
  "rx_unit = [Rep ''kKMGTP'' 1 (Some 1), Rep ''i'' 0 (Some 1), Rep ''Bb'' 0 (Some 1)]"

text \<open>
  \<^verbatim>\<open>Transferred:\s+([0-9.]+)\s*([kKMGTP]i?[Bb]?)\s*/\s*([0-9.]+)\s*([kKMGTP]i?[Bb]?),\s*([0-9]+)%\<close>
  Slots \<open>2i\<close> and \<open>2i+1\<close> are the start and the end of group \<open>i\<close>; group 0 is the match.
\<close>

definition statsRegex :: "rx_item list" where
  "statsRegex =
     [Mark 0, Lit ''Transferred:'', Rep rx_space 1 None,
      Mark 2, Rep ''0123456789.'' 1 None, Mark 3, Rep rx_space 0 None,
      Mark 4] @ rx_unit @ [Mark 5, Rep rx_space 0 None, Lit ''/'', Rep rx_space 0 None,
      Mark 6, Rep ''0123456789.'' 1 None, Mark 7, Rep rx_space 0 None,
      Mark 8] @ rx_unit @ [Mark 9, Lit '','', Rep rx_space 0 None,
      Mark 10, Rep ''0123456789'' 1 None, Mark 11, Lit ''%'', Mark 1]"

text \<open>\<^verbatim>\<open>FindStringSubmatch\<close>: the groups of the leftmost match, or the empty (nil) slice.\<close>

definition FindStringSubmatch :: "rx_item list \<Rightarrow> nat \<Rightarrow> string \<Rightarrow> string list" where
  "FindStringSubmatch re groups s =
     (case first_up (\<lambda>p. rx_run re s p (replicate (2 * groups) 0)) 0 (length s) of
        None \<Rightarrow> []
      | Some caps \<Rightarrow>
          map (\<lambda>i. take (caps ! (2 * i + 1) - caps ! (2 * i)) (drop (caps ! (2 * i)) s))
              [0..<groups])"

subsection \<open>The tokenizer\<close>

text \<open>\<^verbatim>\<open>strings.IndexAny(s, chars)\<close>: the index of the first byte of \<open>s\<close> that is in
  \<open>chars\<close>; \<open>None\<close> is the \<open>-1\<close> of the library.\<close>

fun IndexAny :: "string \<Rightarrow> string \<Rightarrow> nat option" where
  "IndexAny [] chars = None"
| "IndexAny (c # s) chars = (if c \<in> set chars then Some 0 else map_option Suc (IndexAny s chars))"

text \<open>The split function given to the scanner. It returns \<open>advance\<close> and the token
  (\<open>None\<close> is the nil token); its error is always nil.\<close>

definition split :: "string \<Rightarrow> bool \<Rightarrow> nat \<times> string option" where
  "split data atEOF =
     (if atEOF \<and> length data = 0 then (0, None)
      else (case IndexAny data [CR, LF] of
              Some i \<Rightarrow>
                (let token = take i data;
                     advance = i + 1;
                     advance' = (if advance < length data \<and> data ! i = CR \<and> data ! advance = LF
                                 then advance + 1 else advance)
                 in (advance', Some token))
            | None \<Rightarrow> if atEOF then (length data, Some data) else (0, None)))"

text \<open>
  The \<^verbatim>\<open>bufio.Scanner\<close>: \<open>buf\<close> is the unread part of its buffer, \<open>src\<close> the blocks of bytes
  that the successive calls of \<^verbatim>\<open>Read\<close> will deliver (each within the free space of the
  buffer, none empty), and \<open>atEOF\<close> says that the reader has reported the end of the stream.
  The reader is a \<^verbatim>\<open>bufio.Reader\<close>, whose \<^verbatim>\<open>Read\<close> reports the end of the stream in a
  call of its own, one that delivers no bytes: the end comes after the last block.
  \<^verbatim>\<open>scanner.Buffer(buf, 1024*1024)\<close> sets the largest buffer: when that many unread bytes
  hold no token, scanning stops (\<^verbatim>\<open>ErrTooLong\<close>).
\<close>

record Scanner =
  buf :: string
  src :: "string list"
  atEOF :: bool

definition maxTokenSize :: nat where
  "maxTokenSize = 1024 * 1024"

definition NewScanner :: "string list \<Rightarrow> Scanner" where
  "NewScanner reads = \<lparr> buf = [], src = reads, atEOF = False \<rparr>"

text \<open>\<^verbatim>\<open>scanner.Scan()\<close>: the next token and the scanner after it, or \<open>None\<close> when \<open>Scan\<close>
  returns false.\<close>

function Scan :: "Scanner \<Rightarrow> (string \<times> Scanner) option" where
  "Scan s =
     (case (if buf s \<noteq> [] \<or> atEOF s then split (buf s) (atEOF s) else (0, None)) of
        (advance, Some token) \<Rightarrow> Some (token, s\<lparr>buf := drop advance (buf s)\<rparr>)
      | (advance, None) \<Rightarrow>
          if atEOF s then None
          else if maxTokenSize \<le> length (drop advance (buf s)) then None
          else (case src s of
                  [] \<Rightarrow> Scan (s\<lparr>buf := drop advance (buf s), atEOF := True\<rparr>)
                | block # blocks \<Rightarrow>
                    Scan (s\<lparr>buf := drop advance (buf s) @ block, src := blocks\<rparr>)))"
  by pat_completeness auto
termination
  by (relation "measure (\<lambda>s. length (src s) + (if atEOF s then 0 else 1))") auto

declare Scan.simps [simp del]

text \<open>Every token consumes input, so a loop over \<open>Scan\<close> ends: the size below falls with
  each token.\<close>

definition scan_size :: "Scanner \<Rightarrow> nat" where
  "scan_size s = length (buf s) + sum_list (map length (src s)) + length (src s)
                 + (if atEOF s then 0 else 1)"

lemma IndexAny_less: "IndexAny s chars = Some i \<Longrightarrow> i < length s"
  by (induction s arbitrary: i) (auto split: if_splits)

lemma split_token_advance:
  assumes "split data e = (adv, Some tok)"
  shows "0 < adv \<and> adv \<le> length data"
  using assms IndexAny_less [of data "[CR, LF]"]
  by (auto simp: split_def Let_def split: if_splits option.splits)

lemma split_no_token: "split data e = (adv, None) \<Longrightarrow> adv = 0"
  by (auto simp: split_def Let_def split: if_splits option.splits)

lemma Scan_decreases: "Scan s = Some (tok, s') \<Longrightarrow> scan_size s' < scan_size s"
proof (induction s rule: Scan.induct)
  case (1 s)
  obtain adv t where r: "(if buf s \<noteq> [] \<or> atEOF s then split (buf s) (atEOF s) else (0, None)) = (adv, t)"
    by (cases "if buf s \<noteq> [] \<or> atEOF s then split (buf s) (atEOF s) else (0, None)") auto
  show ?case
  proof (cases t)
    case (Some token)
    with r have sp: "split (buf s) (atEOF s) = (adv, Some token)"
      by (auto split: if_splits)
    have "s' = s\<lparr>buf := drop adv (buf s)\<rparr>"
      using "1.prems" r Some by (subst (asm) Scan.simps) simp
    then show ?thesis
      using split_token_advance [OF sp] by (cases "atEOF s") (auto simp: scan_size_def)
  next
    case None
    have a0: "adv = 0" using r None split_no_token by (auto split: if_splits)
    have ne: "\<not> atEOF s" and small: "\<not> maxTokenSize \<le> length (buf s)"
      using "1.prems" r None a0 by (subst (asm) Scan.simps, simp split: if_splits)+
    show ?thesis
    proof (cases "src s")
      case Nil
      have eq: "Scan s = Scan (s\<lparr>buf := drop adv (buf s), atEOF := True\<rparr>)"
        using r None ne small a0 Nil by (subst Scan.simps) simp
      have "scan_size s' < scan_size (s\<lparr>buf := drop adv (buf s), atEOF := True\<rparr>)"
        using "1.IH"(1) [OF r [symmetric] None ne _ Nil] small a0 "1.prems" eq by simp
      then show ?thesis using a0 ne by (simp add: scan_size_def)
    next
      case (Cons block blocks)
      have eq: "Scan s = Scan (s\<lparr>buf := drop adv (buf s) @ block, src := blocks\<rparr>)"
        using r None ne small a0 Cons by (subst Scan.simps) simp
      have "scan_size s' < scan_size (s\<lparr>buf := drop adv (buf s) @ block, src := blocks\<rparr>)"
        using "1.IH"(2) [OF r [symmetric] None ne _ Cons] small a0 "1.prems" eq by simp
      then show ?thesis using a0 ne Cons by (simp add: scan_size_def)
    qed
  qed
qed

text \<open>The body of the loop of \<^verbatim>\<open>parseRcloneOutput\<close> for one line.\<close>

definition handle_line :: "golib \<Rightarrow> string \<Rightarrow> string \<Rightarrow> Manager \<Rightarrow> Manager" where
  "handle_line lib line transferID mgr =
     (if line = [] then mgr
      else (let matches = FindStringSubmatch statsRegex 6 line
            in if 6 \<le> length matches then
                 (case lib_ParseFloat lib (matches ! 5) of
                    Inr percentage \<Rightarrow>
                      (let copied = parseSize lib (matches ! 1) (matches ! 2);
                           total = parseSize lib (matches ! 3) (matches ! 4)
                       in UpdateProgress mgr transferID percentage copied total)
                  | Inl err \<Rightarrow> mgr)
               else mgr))"

text \<open>\<^verbatim>\<open>for scanner.Scan() { ... }\<close>\<close>

function parse_loop :: "golib \<Rightarrow> Scanner \<Rightarrow> string \<Rightarrow> Manager \<Rightarrow> Manager" where
  "parse_loop lib sc transferID mgr =
     (case Scan sc of
        None \<Rightarrow> mgr
      | Some (line, sc') \<Rightarrow> parse_loop lib sc' transferID (handle_line lib line transferID mgr))"
  by pat_completeness auto
termination
  by (relation "measure (\<lambda>(lib, sc, transferID, mgr). scan_size sc)")
    (auto dest: Scan_decreases)

declare parse_loop.simps [simp del]

text \<open>\<^verbatim>\<open>parseRcloneOutput\<close>, reading the stream that arrives in the blocks \<open>reads\<close>.\<close>

definition parseRcloneOutput :: "golib \<Rightarrow> string list \<Rightarrow> string \<Rightarrow> Manager \<Rightarrow> Manager" where
  "parseRcloneOutput lib reads transferID mgr = parse_loop lib (NewScanner reads) transferID mgr"

text \<open>The tokens the scanner produces, in order: what \<^verbatim>\<open>scanner.Text()\<close> is in the
  successive iterations.\<close>

function scan_tokens :: "Scanner \<Rightarrow> string list" where
  "scan_tokens sc =
     (case Scan sc of
        None \<Rightarrow> []
      | Some (token, sc') \<Rightarrow> token # scan_tokens sc')"
  by pat_completeness auto
termination
  by (relation "measure scan_size") (auto dest: Scan_decreases)

declare scan_tokens.simps [simp del]

text \<open>The line of the end-to-end scenario, without its terminator.\<close>

definition progress_line :: string where
  "progress_line = ''Transferred:   512.0 MiB / 1.0 GiB, 50%, 10.0 MiB/s, ETA 30s''"

text \<open>The binary order of an upper-cased unit: 0 for bytes and for no unit, 1 for the K
  forms, 2 for the M forms, 3 for the G forms.\<close>

definition unit_order :: "string \<Rightarrow> nat option" where
  "unit_order U =
     (if U \<in> set ['''', ''B''] then Some 0
      else if U \<in> set [''K'', ''KB'', ''KIB''] then Some 1
      else if U \<in> set [''M'', ''MB'', ''MIB''] then Some 2
      else if U \<in> set [''G'', ''GB'', ''GIB''] then Some 3
      else None)"

subsection \<open>Logical lines\<close>

text \<open>
  The lines of a byte stream as the specification has them: a carriage return, a line feed, or
  a carriage return directly followed by a line feed ends a line, each being one terminator;
  bytes after the last terminator are a final line when there are any.
\<close>

definition terminator_length :: "string \<Rightarrow> nat \<Rightarrow> nat" where
  "terminator_length s i = (if s ! i = CR \<and> i + 1 < length s \<and> s ! (i + 1) = LF then 2 else 1)"

function logical_lines :: "string \<Rightarrow> string list" where
  "logical_lines s =
     (case IndexAny s [CR, LF] of
        None \<Rightarrow> if s = [] then [] else [s]
      | Some i \<Rightarrow> take i s # logical_lines (drop (i + terminator_length s i) s))"
  by pat_completeness auto
termination
  by (relation "measure length") (auto dest: IndexAny_less simp: terminator_length_def)

declare logical_lines.simps [simp del]

text \<open>
  No carriage return and line feed that follow each other in the stream are cut apart by the
  boundary between two reads: \<open>b\<close> is what has arrived, \<open>blocks\<close> what the next reads deliver.
\<close>

fun no_split_pair :: "string \<Rightarrow> string list \<Rightarrow> bool" where
  "no_split_pair b [] = True"
| "no_split_pair b (block # blocks) =
     (\<not> (b \<noteq> [] \<and> last b = CR \<and> concat (block # blocks) \<noteq> [] \<and>
         hd (concat (block # blocks)) = LF) \<and>
      no_split_pair (b @ block) blocks)"


text \<open>Streams for examples: two lines whose terminating pair arrives in two reads, and a
  line of one mebibyte, arriving in sixteen reads of 64 KiB, before a line feed.\<close>

definition reads_split_pair :: "string list" where
  "reads_split_pair = [''a'' @ [CR], [LF] @ ''b'' @ [LF]]"


text \<open>The bytes a scanner has still to deliver as tokens: its unread buffer and what the
  reads will bring.\<close>

definition pending :: "Scanner \<Rightarrow> string" where
  "pending s = buf s @ concat (src s)"

text \<open>A scanner for which the tokens are promised: nothing is read after the end of the
  stream, no terminating pair is cut by a read boundary, and every line still to come is
  shorter than the largest buffer.\<close>

definition scan_ok :: "Scanner \<Rightarrow> bool" where
  "scan_ok s =
     ((if atEOF s then src s = [] else True) \<and>
      no_split_pair (buf s) (src s) \<and>
      list_all (\<lambda>l. length l < maxTokenSize) (logical_lines (pending s)))"

text \<open>One call of \<open>Scan\<close> delivers the first of the lines still to come, and leaves a scanner
  that has the other lines to come. \<close>

definition scan_refines :: "Scanner \<Rightarrow> bool" where
  "scan_refines s =
     (case logical_lines (pending s) of
        [] \<Rightarrow> Scan s = None
      | l # ls \<Rightarrow>
          (case Scan s of
             None \<Rightarrow> False
           | Some (token, s') \<Rightarrow> token = l \<and> scan_ok s' \<and> logical_lines (pending s') = ls))"

section \<open>Properties of the store\<close>

lemma map_of_update_same: "map_of (AList.update k v al) k = Some v"
  by (simp add: update_conv')

lemma map_of_update_other: "k' \<noteq> k \<Longrightarrow> map_of (AList.update k v al) k' = map_of al k'"
  by (simp add: update_conv')

lemma keys_update_known: "map_of al k = Some v0 \<Longrightarrow> map fst (AList.update k v al) = map fst al"
  by (induction al) (auto split: if_splits)

lemma GetAll_loop_eq:
  "GetAll_loop m ks res =
     res @ map (\<lambda>k. the (map_of (transfers m) k)) (filter (\<lambda>k. map_of (transfers m) k \<noteq> None) ks)"
  by (induction ks arbitrary: res) (auto split: option.splits)

lemma Stats_loop_total:
  "stats_total (Stats_loop ts acc) = stats_total acc + length ts"
proof (induction ts arbitrary: acc)
  case Nil
  then show ?case by simp
next
  case (Cons t ts)
  obtain a b c d where acc: "acc = (a, b, c, d)" by (cases acc) auto
  show ?case
    unfolding acc by (cases "Status t") (simp_all add: Cons.IH, simp_all add: stats_total_def)
qed

lemma Get_Add:
  "Get (snd (Add m i source destination)) tid =
     (if tid = i then Some (new_transfer i source destination) else Get m tid)"
  by (simp add: Add_def Get_def update_conv' Let_def)

lemma Get_Start:
  "Get (Start m i now) tid =
     (if tid = i then map_option (\<lambda>t. t\<lparr>Status := StatusInProgress, StartTime := now\<rparr>) (Get m tid)
      else Get m tid)"
  by (simp add: Start_def Get_def update_conv' split: option.splits)

lemma Get_UpdateProgress:
  "Get (UpdateProgress m i p c b) tid =
     (if tid = i
      then map_option (\<lambda>t. t\<lparr>Progress := p, BytesCopied := c, BytesTotal := b\<rparr>) (Get m tid)
      else Get m tid)"
  by (simp add: UpdateProgress_def Get_def update_conv' split: option.splits)

lemma Get_Complete:
  "Get (Complete m i now) tid =
     (if tid = i
      then map_option (\<lambda>t. t\<lparr>Status := StatusCompleted, Progress := Finite 100, EndTime := now\<rparr>)
             (Get m tid)
      else Get m tid)"
  by (simp add: Complete_def Get_def update_conv' split: option.splits)

lemma Get_Fail:
  "Get (Fail m i err now) tid =
     (if tid = i
      then map_option (\<lambda>t. t\<lparr>Status := StatusFailed, EndTime := now, Error := err\<rparr>) (Get m tid)
      else Get m tid)"
  by (simp add: Fail_def Get_def update_conv' split: option.splits)

lemma Get_NewManager: "Get NewManager tid = None"
  by (simp add: NewManager_def Get_def)

lemma Get_store_t1:
  "Get store_t1 tid = (if tid = ''t1'' then Some (new_transfer ''t1'' ''src'' ''dst'') else None)"
  by (simp add: store_t1_def Get_Add Get_NewManager)

lemma Get_store_t1_completed:
  "Get store_t1_completed tid =
     (if tid = ''t1''
      then Some ((new_transfer ''t1'' ''src'' ''dst'')
                   \<lparr>Status := StatusCompleted, Progress := Finite 100, EndTime := 5\<rparr>)
      else None)"
  by (simp add: store_t1_completed_def Get_Complete Get_store_t1)

text \<open>C9. \<open>UpdateProgress\<close> with an unknown id leaves the store unchanged; with a known id it
  sets exactly \<open>Progress\<close>, \<open>BytesCopied\<close> and \<open>BytesTotal\<close> of that record, whatever its
  status, and leaves the record's other fields, every other record, the set of keys and the
  insertion order as they were.\<close>

theorem UpdateProgress_frame:
  "(Get m tid = None \<longrightarrow> UpdateProgress m tid p c b = m) \<and>
   (\<forall>t0. Get m tid = Some t0 \<longrightarrow>
      (\<exists>t1. Get (UpdateProgress m tid p c b) tid = Some t1 \<and>
         Progress t1 = p \<and> BytesCopied t1 = c \<and> BytesTotal t1 = b \<and>
         ID t1 = ID t0 \<and> Source t1 = Source t0 \<and> Destination t1 = Destination t0 \<and>
         Status t1 = Status t0 \<and> StartTime t1 = StartTime t0 \<and> EndTime t1 = EndTime t0 \<and>
         Error t1 = Error t0)) \<and>
   (\<forall>tid'. tid' \<noteq> tid \<longrightarrow> Get (UpdateProgress m tid p c b) tid' = Get m tid') \<and>
   map fst (transfers (UpdateProgress m tid p c b)) = map fst (transfers m) \<and>
   order (UpdateProgress m tid p c b) = order m"
  by (auto simp: UpdateProgress_def Get_def map_of_update_same map_of_update_other
      keys_update_known split: option.splits)

theorem UpdateProgress_frame_witness:
  "Get store_t1_completed ''t1'' \<noteq> None \<and> Get store_t1_completed ''zz'' = None \<and>
   UpdateProgress store_t1_completed ''zz'' (Finite 50) 1 2 = store_t1_completed \<and>
   map_option Status (Get (UpdateProgress store_t1_completed ''t1'' (Finite 50) 1 2) ''t1'')
     = Some StatusCompleted \<and>
   map_option Progress (Get (UpdateProgress store_t1_completed ''t1'' (Finite 50) 1 2) ''t1'') = Some (Finite 50) \<and>
   Get (UpdateProgress store_t1_completed ''t1'' (Finite 50) 1 2) ''zz'' = None"
  using UpdateProgress_frame [of store_t1_completed "''t1''" "Finite 50" 1 2]
    UpdateProgress_frame [of store_t1_completed "''zz''" "Finite 50" 1 2]
  by (simp add: Get_store_t1_completed Get_UpdateProgress)

text \<open>C3, as stated, fails: \<open>Start\<close> has no guard on the status, so it moves a Completed
  record to InProgress.\<close>

theorem terminal_absorbing_counterexample:
  "map_option Status (Get store_t1_completed ''t1'') = Some StatusCompleted \<and>
   map_option Status (Get (apply_op store_t1_completed (OpStart ''t1'' 7)) ''t1'')
     = Some StatusInProgress"
  by (simp add: Get_store_t1_completed Get_Start)

text \<open>C3, amended. A record whose status is Completed or Failed keeps a status in
  \<open>{Completed, Failed}\<close> under \<open>UpdateProgress\<close>, \<open>Complete\<close> and \<open>Fail\<close> on any id and
  under \<open>Add\<close> and \<open>Start\<close> on any other id; \<open>Start\<close> on its own id makes it InProgress
  and \<open>Add\<close> on its own id replaces it by a Pending record.\<close>

theorem terminal_absorbing_amended:
  assumes "Get m tid = Some t" and "terminal (Status t)"
  shows "\<exists>t'. Get (apply_op m op) tid = Some t' \<and>
           (case op of
              OpAdd i source destination \<Rightarrow>
                if i = tid then Status t' = StatusPending else terminal (Status t')
            | OpStart i now \<Rightarrow>
                if i = tid then Status t' = StatusInProgress else terminal (Status t')
            | OpUpdateProgress i p c b \<Rightarrow> Status t' = Status t
            | OpComplete i now \<Rightarrow> terminal (Status t')
            | OpFail i err now \<Rightarrow> terminal (Status t'))"
  using assms
  by (cases op)
    (auto simp: Get_Add Get_Start Get_UpdateProgress Get_Complete Get_Fail terminal_def
      new_transfer_def)

theorem terminal_absorbing_amended_witness:
  "Get store_t1_completed ''t1'' \<noteq> None \<and>
   terminal (Status (the (Get store_t1_completed ''t1''))) \<and>
   (\<exists>t'. Get (apply_op store_t1_completed (OpFail ''t1'' None 9)) ''t1'' = Some t' \<and>
      terminal (Status t'))"
proof -
  have g: "Get store_t1_completed ''t1'' =
             Some ((new_transfer ''t1'' ''src'' ''dst'')
                     \<lparr>Status := StatusCompleted, Progress := Finite 100, EndTime := 5\<rparr>)"
    by (simp add: Get_store_t1_completed)
  have t: "terminal (Status ((new_transfer ''t1'' ''src'' ''dst'')
                     \<lparr>Status := StatusCompleted, Progress := Finite 100, EndTime := 5\<rparr>))"
    by (simp add: terminal_def)
  show ?thesis
    using terminal_absorbing_amended [OF g t, of "OpFail ''t1'' None 9"] g t by simp
qed

subsection \<open>Adding an id twice\<close>

lemma wf_store_NewManager: "wf_store NewManager"
  by (simp add: wf_store_def NewManager_def)

lemma distinct_keys_update: "distinct (map fst al) \<Longrightarrow> distinct (map fst (AList.update k v al))"
  by (simp add: distinct_update)

lemma keys_update: "set (map fst (AList.update k v al)) = insert k (set (map fst al))"
  using dom_update [of k v al] by (simp add: dom_map_of_conv_image_fst)

lemma list_all_update:
  "list_all P al \<Longrightarrow> P (k, v) \<Longrightarrow> list_all P (AList.update k v al)"
  by (induction al) auto

lemma known_key: "map_of al k = Some v \<Longrightarrow> k \<in> set (map fst al)"
  using map_of_eq_None_iff [of al k] by auto

lemma wf_store_update_known:
  assumes "wf_store m" and "map_of (transfers m) k = Some r0" and "ID r = k"
  shows "wf_store (m\<lparr>transfers := AList.update k r (transfers m)\<rparr>)"
proof -
  have "insert k (set (map fst (transfers m))) = set (map fst (transfers m))"
    using known_key [OF assms(2)] by auto
  then show ?thesis
    using assms(1,3) unfolding wf_store_def
    by (simp add: distinct_update keys_update list_all_update del: set_map)
qed

lemma record_filed_under_ID:
  "list_all (\<lambda>(k, r). ID r = k) al \<Longrightarrow> map_of al k = Some r \<Longrightarrow> ID r = k"
  by (induction al) (auto split: if_splits)

lemma wf_store_map_of_ID: "wf_store m \<Longrightarrow> map_of (transfers m) k = Some r \<Longrightarrow> ID r = k"
  unfolding wf_store_def using record_filed_under_ID by blast

lemma wf_store_apply_op: "wf_store m \<Longrightarrow> wf_store (apply_op m op)"
proof (cases op)
  case (OpAdd i source destination)
  assume wf: "wf_store m"
  show ?thesis
    using wf unfolding OpAdd wf_store_def
    by (simp add: Add_def Let_def distinct_update keys_update list_all_update new_transfer_def
        del: set_map)
next
  case (OpStart i now)
  assume wf: "wf_store m"
  show ?thesis
  proof (cases "map_of (transfers m) i")
    case None
    then show ?thesis using wf by (simp add: OpStart Start_def)
  next
    case (Some r0)
    have "ID r0 = i" using wf Some wf_store_map_of_ID by blast
    then show ?thesis
      using wf_store_update_known [OF wf Some] by (simp add: OpStart Start_def Some)
  qed
next
  case (OpUpdateProgress i p c b)
  assume wf: "wf_store m"
  show ?thesis
  proof (cases "map_of (transfers m) i")
    case None
    then show ?thesis using wf by (simp add: OpUpdateProgress UpdateProgress_def)
  next
    case (Some r0)
    have "ID r0 = i" using wf Some wf_store_map_of_ID by blast
    then show ?thesis
      using wf_store_update_known [OF wf Some]
      by (simp add: OpUpdateProgress UpdateProgress_def Some)
  qed
next
  case (OpComplete i now)
  assume wf: "wf_store m"
  show ?thesis
  proof (cases "map_of (transfers m) i")
    case None
    then show ?thesis using wf by (simp add: OpComplete Complete_def)
  next
    case (Some r0)
    have "ID r0 = i" using wf Some wf_store_map_of_ID by blast
    then show ?thesis
      using wf_store_update_known [OF wf Some] by (simp add: OpComplete Complete_def Some)
  qed
next
  case (OpFail i err now)
  assume wf: "wf_store m"
  show ?thesis
  proof (cases "map_of (transfers m) i")
    case None
    then show ?thesis using wf by (simp add: OpFail Fail_def)
  next
    case (Some r0)
    have "ID r0 = i" using wf Some wf_store_map_of_ID by blast
    then show ?thesis
      using wf_store_update_known [OF wf Some] by (simp add: OpFail Fail_def Some)
  qed
qed

lemma wf_store_reachable: "wf_store (foldl apply_op NewManager ops)"
  by (induction ops rule: rev_induct) (simp_all add: wf_store_NewManager wf_store_apply_op)

lemma count_list_map_key:
  "(\<forall>k \<in> set ks. f k = y \<longleftrightarrow> k = i) \<Longrightarrow> count_list (map f ks) y = count_list ks i"
  by (induction ks) auto

lemma count_list_distinct: "distinct ks \<Longrightarrow> i \<in> set ks \<Longrightarrow> count_list ks i = 1"
  by (induction ks) auto

lemma GetAll_all_known:
  assumes "\<forall>k \<in> set (order m). Get m k \<noteq> None"
  shows "GetAll m = map (\<lambda>k. the (Get m k)) (order m)"
proof -
  have "filter (\<lambda>k. map_of (transfers m) k \<noteq> None) (order m) = order m"
    using assms by (simp add: Get_def)
  then show ?thesis by (simp add: GetAll_def GetAll_loop_eq Get_def)
qed

lemma wf_store_order_known: "wf_store m \<Longrightarrow> k \<in> set (order m) \<Longrightarrow> Get m k \<noteq> None"
  unfolding wf_store_def Get_def
  by (auto simp: map_of_eq_None_iff)

lemma wf_store_Get_ID: "wf_store m \<Longrightarrow> Get m k = Some r \<Longrightarrow> ID r = k"
  unfolding Get_def by (rule wf_store_map_of_ID)

lemma Stats_total: "stats_total (Stats m) = length (transfers m)"
  by (simp add: Stats_def Stats_loop_total) (simp add: stats_total_def)

lemma wf_store_count_keys:
  assumes "wf_store m"
  shows "length (transfers m) = card (set (order m))"
proof -
  have "card (set (map fst (transfers m))) = length (map fst (transfers m))"
    using assms unfolding wf_store_def by (intro distinct_card) simp
  moreover have "set (map fst (transfers m)) = set (order m)"
    using assms unfolding wf_store_def by simp
  ultimately show ?thesis by simp
qed

text \<open>C10. In a store built by the store's operations, \<open>Add\<close> with an id that is already
  there replaces its record by a fresh Pending record with zero progress and appends the id to
  \<open>order\<close> once more. \<open>GetAll\<close> then returns the fresh record once for each occurrence of
  the id in \<open>order\<close> (one more than before, so twice after the second \<open>Add\<close>), while
  the map still has one entry for the id and the four counts of \<open>Stats\<close> still add up to the
  number of distinct ids.\<close>

theorem Add_existing_id:
  assumes "wf_store m" and "Get m tid = Some old"
  shows "fst (Add m tid source destination) = new_transfer tid source destination \<and>
         Get (snd (Add m tid source destination)) tid = Some (new_transfer tid source destination) \<and>
         Status (new_transfer tid source destination) = StatusPending \<and>
         Progress (new_transfer tid source destination) = Finite 0 \<and>
         BytesCopied (new_transfer tid source destination) = 0 \<and>
         BytesTotal (new_transfer tid source destination) = 0 \<and>
         order (snd (Add m tid source destination)) = order m @ [tid] \<and>
         1 \<le> count_list (order m) tid \<and>
         count_list (GetAll (snd (Add m tid source destination)))
            (new_transfer tid source destination) = count_list (order m) tid + 1 \<and>
         length (GetAll (snd (Add m tid source destination))) = length (GetAll m) + 1 \<and>
         count_list (map fst (transfers (snd (Add m tid source destination)))) tid = 1 \<and>
         stats_total (Stats (snd (Add m tid source destination))) = stats_total (Stats m) \<and>
         stats_total (Stats (snd (Add m tid source destination))) =
           card (set (order (snd (Add m tid source destination))))"
proof -
  define fresh where "fresh = new_transfer tid source destination"
  define m' where "m' = snd (Add m tid source destination)"
  have wf': "wf_store m'"
    using wf_store_apply_op [OF assms(1), of "OpAdd tid source destination"]
    by (simp add: m'_def)
  have ord: "order m' = order m @ [tid]"
    by (simp add: m'_def Add_def Let_def)
  have get: "\<And>k. Get m' k = (if k = tid then Some fresh else Get m k)"
    by (simp add: m'_def fresh_def Get_Add)
  have tid_in: "tid \<in> set (order m)"
    using assms known_key [of "transfers m" tid old] by (simp add: wf_store_def Get_def)
  then have c1: "1 \<le> count_list (order m) tid"
    using count_list_0_iff [of "order m" tid] by (cases "count_list (order m) tid") auto
  have known: "\<forall>k \<in> set (order m). Get m k \<noteq> None"
    using wf_store_order_known [OF assms(1)] by blast
  have known': "\<forall>k \<in> set (order m'). Get m' k \<noteq> None"
    using wf_store_order_known [OF wf'] by blast
  have all': "GetAll m' = map (\<lambda>k. the (Get m' k)) (order m @ [tid])"
    using GetAll_all_known [OF known'] ord by simp
  have all: "GetAll m = map (\<lambda>k. the (Get m k)) (order m)"
    using GetAll_all_known [OF known] .
  have key: "\<forall>k \<in> set (order m @ [tid]). (the (Get m' k) = fresh) = (k = tid)"
  proof
    fix k assume k: "k \<in> set (order m @ [tid])"
    show "(the (Get m' k) = fresh) = (k = tid)"
    proof (cases "k = tid")
      case True
      then show ?thesis by (simp add: get)
    next
      case False
      with k known obtain r where r: "Get m k = Some r" by auto
      have "ID r = k" using wf_store_Get_ID [OF assms(1) r] .
      moreover have "ID fresh = tid" by (simp add: fresh_def new_transfer_def)
      ultimately have "r \<noteq> fresh" using False by auto
      then show ?thesis using False r by (simp add: get)
    qed
  qed
  have cnt: "count_list (GetAll m') fresh = count_list (order m) tid + 1"
    unfolding all' using count_list_map_key [OF key] by simp
  have len: "length (GetAll m') = length (GetAll m) + 1"
    by (simp add: all all')
  have keys: "map fst (transfers m') = map fst (transfers m)"
    using assms(2) by (simp add: m'_def Add_def Let_def Get_def keys_update_known)
  have "distinct (map fst (transfers m))" and "tid \<in> set (map fst (transfers m))"
    using assms known_key [of "transfers m" tid old] by (simp_all add: wf_store_def Get_def)
  then have one: "count_list (map fst (transfers m')) tid = 1"
    unfolding keys by (rule count_list_distinct)
  have st: "stats_total (Stats m') = stats_total (Stats m)"
    using arg_cong [OF keys, of length] by (simp add: Stats_total)
  have card: "stats_total (Stats m') = card (set (order m'))"
    using wf_store_count_keys [OF wf'] by (simp add: Stats_total)
  have fr: "Status fresh = StatusPending \<and> Progress fresh = Finite 0 \<and> BytesCopied fresh = 0 \<and>
            BytesTotal fresh = 0"
    by (simp add: fresh_def new_transfer_def)
  have f: "fst (Add m tid source destination) = fresh"
    by (simp add: Add_def Let_def fresh_def)
  show ?thesis
    using f get [of tid] fr ord c1 cnt len one st card
    unfolding fresh_def [symmetric] m'_def [symmetric] by simp
qed

theorem Add_existing_id_witness:
  "wf_store store_t1 \<and> Get store_t1 ''t1'' = Some (new_transfer ''t1'' ''src'' ''dst'') \<and>
   Get (snd (Add store_t1 ''t1'' ''a'' ''b'')) ''t1'' = Some (new_transfer ''t1'' ''a'' ''b'') \<and>
   count_list (GetAll (snd (Add store_t1 ''t1'' ''a'' ''b''))) (new_transfer ''t1'' ''a'' ''b'') = 2 \<and>
   stats_total (Stats (snd (Add store_t1 ''t1'' ''a'' ''b''))) = 1"
proof -
  have wf: "wf_store store_t1"
    using wf_store_apply_op [OF wf_store_NewManager, of "OpAdd ''t1'' ''src'' ''dst''"]
    by (simp add: store_t1_def)
  have g: "Get store_t1 ''t1'' = Some (new_transfer ''t1'' ''src'' ''dst'')"
    by (simp add: Get_store_t1)
  have o: "order store_t1 = [''t1'']"
    by (simp add: store_t1_def Add_def Let_def NewManager_def)
  have s: "stats_total (Stats store_t1) = 1"
    by (simp add: Stats_total store_t1_def Add_def Let_def NewManager_def)
  show ?thesis
    using Add_existing_id [OF wf g, of "''a''" "''b''"] wf g o s by simp
qed

section \<open>Properties of the machine numbers\<close>

lemma round_to_float64_eval:
  assumes "0 < q"
    and e: "max (ilog2 q) (- 1022) = e"
    and ulp: "pow2 (e - 52) = ulp"
    and r: "of_int (round_half_even (q / ulp)) * ulp = r"
    and small: "r < pow2 1024"
  shows "round_to_float64 q = Finite r"
proof -
  have a: "\<bar>q\<bar> = q" and nz: "q \<noteq> 0" using assms(1) by simp_all
  show ?thesis
    unfolding round_to_float64_def Let_def a e ulp r using nz small assms(1) by simp
qed

lemma bit_length_bound: "0 \<le> n \<Longrightarrow> n < 2 ^ k \<Longrightarrow> bit_length n \<le> k"
proof (induction k arbitrary: n)
  case 0
  then have "n = 0" by simp
  then show ?case by (simp add: bit_length.simps)
next
  case (Suc k)
  show ?case
  proof (cases "n \<le> 0")
    case True
    then show ?thesis by (simp add: bit_length.simps)
  next
    case False
    have "n div 2 < 2 ^ k" using Suc.prems by auto
    moreover have "0 \<le> n div 2" using Suc.prems by simp
    ultimately have "bit_length (n div 2) \<le> k" using Suc.IH by blast
    then show ?thesis using False by (subst bit_length.simps) simp
  qed
qed

lemma bit_length_pos: "0 < n \<Longrightarrow> 0 < bit_length n"
  by (subst bit_length.simps) simp

lemma round_half_even_of_int: "round_half_even (of_int n) = n"
  by (simp add: round_half_even_def Let_def)

text \<open>Integers below \<open>2^53\<close> are float64 values: rounding keeps them.\<close>

lemma round_to_float64_of_int:
  assumes "0 < n" and "n < 2 ^ 53"
  shows "round_to_float64 (of_int n) = Finite (of_int n)"
proof -
  define b where "b = bit_length n"
  have b1: "0 < b" and b53: "b \<le> 53"
    using assms bit_length_pos bit_length_bound [of n 53] by (simp_all add: b_def)
  have q: "(0::rat) < of_int n" and q1: "(1::rat) \<le> of_int n" using assms(1) by simp_all
  have il: "ilog2 (of_int n) = int b - 1"
    using q1 by (simp add: ilog2_def b_def)
  have e: "max (ilog2 (of_int n)) (- 1022) = int b - 1"
    using il b1 by simp
  have ulp: "pow2 (int b - 1 - 52) = 1 / 2 ^ (53 - b)"
  proof -
    have "nat (- (int b - 1 - 52)) = 53 - b" using b53 by simp
    then show ?thesis using b53 b1
      by (cases "b = 53") (simp_all add: pow2_def)
  qed
  have "(of_int n :: rat) / (1 / 2 ^ (53 - b)) = of_int (n * 2 ^ (53 - b))"
    by simp
  then have r: "of_int (round_half_even (of_int n / (1 / 2 ^ (53 - b)))) * (1 / 2 ^ (53 - b))
                  = (of_int n :: rat)"
    by (simp only: round_half_even_of_int) simp
  have "(of_int n :: rat) < 2 ^ 53" using assms(2)
    by (metis of_int_less_iff of_int_numeral of_int_power)
  also have "\<dots> < pow2 1024" by (simp add: pow2_def)
  finally have small: "(of_int n :: rat) < pow2 1024" .
  show ?thesis
    using round_to_float64_eval [OF q e ulp r small] .
qed

lemma round_to_float64_numeral:
  "numeral w < (2::int) ^ 53 \<Longrightarrow> round_to_float64 (numeral w) = Finite (numeral w)"
  using round_to_float64_of_int [of "numeral w"] by simp

lemma round_to_float64_one: "round_to_float64 1 = Finite 1"
  using round_to_float64_of_int [of 1] by simp

lemma round_to_float64_three_halves: "round_to_float64 (3 / 2) = Finite (3 / 2)"
proof (rule round_to_float64_eval [where e = 0 and ulp = "1 / 2 ^ 52"])
  show "(0::rat) < 3 / 2" by simp
  show "max (ilog2 (3 / 2)) (- 1022) = 0" by (simp add: ilog2_def bit_length.simps)
  show "pow2 (0 - 52) = 1 / 2 ^ 52" by (simp add: pow2_def)
  show "of_int (round_half_even (3 / 2 / (1 / 2 ^ 52))) * (1 / 2 ^ 52) = (3 / 2 :: rat)"
    by (simp add: round_half_even_def Let_def)
  show "(3 / 2 :: rat) < pow2 1024" by (simp add: pow2_def)
qed

lemma float64_of_int64_exact:
  "sint w = n \<Longrightarrow> 0 < n \<Longrightarrow> n < 2 ^ 53 \<Longrightarrow> float64_of_int64 w = Finite (of_int n)"
  by (simp add: float64_of_int64_def round_to_float64_of_int)

lemma floor_three_halves: "\<lfloor>3 / 2 :: rat\<rfloor> = 1"
  by (simp add: floor_eq_iff)

section \<open>Properties of the classifier\<close>

lemma has_keyword_network:
  "has_keyword toLower network_keywords err =
     (Contains (toLower (Error_text err)) ''network'' \<or>
      Contains (toLower (Error_text err)) ''connection'' \<or>
      Contains (toLower (Error_text err)) ''dial'' \<or>
      Contains (toLower (Error_text err)) ''no route to host'' \<or>
      Contains (toLower (Error_text err)) ''host is down'')"
  by (simp add: has_keyword_def network_keywords_def)

lemma has_keyword_timeout:
  "has_keyword toLower timeout_keywords err =
     (Contains (toLower (Error_text err)) ''timeout'' \<or>
      Contains (toLower (Error_text err)) ''deadline exceeded'' \<or>
      Contains (toLower (Error_text err)) ''i/o timeout'')"
  by (simp add: has_keyword_def timeout_keywords_def)

lemma has_keyword_auth:
  "has_keyword toLower auth_keywords err =
     (Contains (toLower (Error_text err)) ''auth'' \<or>
      Contains (toLower (Error_text err)) ''unauthorized'' \<or>
      Contains (toLower (Error_text err)) ''forbidden'' \<or>
      Contains (toLower (Error_text err)) ''permission denied'' \<or>
      Contains (toLower (Error_text err)) ''access denied'')"
  by (simp add: has_keyword_def auth_keywords_def)

lemma has_keyword_notfound:
  "has_keyword toLower notfound_keywords err =
     (Contains (toLower (Error_text err)) ''not found'' \<or>
      Contains (toLower (Error_text err)) ''no such file'' \<or>
      Contains (toLower (Error_text err)) ''does not exist'' \<or>
      Contains (toLower (Error_text err)) ''404'')"
  by (simp add: has_keyword_def notfound_keywords_def)

lemma has_keyword_space:
  "has_keyword toLower space_keywords err =
     (Contains (toLower (Error_text err)) ''no space left'' \<or>
      Contains (toLower (Error_text err)) ''insufficient space'' \<or>
      Contains (toLower (Error_text err)) ''disk full'' \<or>
      Contains (toLower (Error_text err)) ''quota exceeded'')"
  by (simp add: has_keyword_def space_keywords_def)

lemma has_keyword_filesystem:
  "has_keyword toLower filesystem_keywords err =
     (Contains (toLower (Error_text err)) ''filesystem'' \<or>
      Contains (toLower (Error_text err)) ''i/o error'' \<or>
      Contains (toLower (Error_text err)) ''read-only'')"
  by (simp add: has_keyword_def filesystem_keywords_def)

lemma ClassifyError_network:
  assumes "\<not> As_ValidationError err" and "has_keyword toLower network_keywords err"
  shows "ClassifyError toLower (Some err) =
           Some \<lparr>Type = ErrorTypeNetwork, Err = err, Retryable = True, Temporary = True\<rparr>"
  using assms unfolding has_keyword_network by (simp add: Let_def)

lemma ClassifyError_unknown:
  assumes "\<not> As_ValidationError err"
    and "\<not> has_keyword toLower network_keywords err" and "\<not> has_keyword toLower timeout_keywords err"
    and "\<not> has_keyword toLower auth_keywords err" and "\<not> has_keyword toLower notfound_keywords err"
    and "\<not> has_keyword toLower space_keywords err" and "\<not> has_keyword toLower filesystem_keywords err"
  shows "ClassifyError toLower (Some err) =
           Some \<lparr>Type = ErrorTypeUnknown, Err = err, Retryable = True, Temporary = False\<rparr>"
  using assms
  unfolding has_keyword_network has_keyword_timeout has_keyword_auth has_keyword_notfound
    has_keyword_space has_keyword_filesystem
  by (simp add: Let_def)

text \<open>C7. Whatever \<^verbatim>\<open>strings.ToLower\<close> makes of the text: an error that is not a
  validation error and whose lower-cased text contains a network keyword and an auth keyword
  is classified Network, retryable and temporary (the network rule comes first); an error
  that is not a validation error and whose lower-cased text contains no keyword of any rule
  is classified Unknown, retryable and not temporary.\<close>

theorem ClassifyError_priority:
  "(\<not> As_ValidationError err \<and> has_keyword toLower network_keywords err \<and> has_keyword toLower auth_keywords err
      \<longrightarrow> ClassifyError toLower (Some err) =
            Some \<lparr>Type = ErrorTypeNetwork, Err = err, Retryable = True, Temporary = True\<rparr>) \<and>
   (\<not> As_ValidationError err \<and>
    \<not> has_keyword toLower network_keywords err \<and> \<not> has_keyword toLower timeout_keywords err \<and>
    \<not> has_keyword toLower auth_keywords err \<and> \<not> has_keyword toLower notfound_keywords err \<and>
    \<not> has_keyword toLower space_keywords err \<and> \<not> has_keyword toLower filesystem_keywords err
      \<longrightarrow> ClassifyError toLower (Some err) =
            Some \<lparr>Type = ErrorTypeUnknown, Err = err, Retryable = True, Temporary = False\<rparr>)"
  using ClassifyError_network [of err toLower] ClassifyError_unknown [of err toLower] by blast

theorem ClassifyError_priority_witness:
  "is_ascii ''Dial tcp: Connection refused (Permission denied)'' \<and> is_ascii ''exit status 1'' \<and>
   (\<not> As_ValidationError (New ''Dial tcp: Connection refused (Permission denied)'') \<and>
    has_keyword ToLower network_keywords (New ''Dial tcp: Connection refused (Permission denied)'') \<and>
    has_keyword ToLower auth_keywords (New ''Dial tcp: Connection refused (Permission denied)'') \<and>
    ClassifyError ToLower (Some (New ''Dial tcp: Connection refused (Permission denied)'')) =
      Some \<lparr>Type = ErrorTypeNetwork, Err = New ''Dial tcp: Connection refused (Permission denied)'',
            Retryable = True, Temporary = True\<rparr>) \<and>
   (\<not> As_ValidationError (New ''exit status 1'') \<and>
    \<not> has_keyword ToLower network_keywords (New ''exit status 1'') \<and>
    \<not> has_keyword ToLower timeout_keywords (New ''exit status 1'') \<and>
    \<not> has_keyword ToLower auth_keywords (New ''exit status 1'') \<and>
    \<not> has_keyword ToLower notfound_keywords (New ''exit status 1'') \<and>
    \<not> has_keyword ToLower space_keywords (New ''exit status 1'') \<and>
    \<not> has_keyword ToLower filesystem_keywords (New ''exit status 1'') \<and>
    ClassifyError ToLower (Some (New ''exit status 1'')) =
      Some \<lparr>Type = ErrorTypeUnknown, Err = New ''exit status 1'', Retryable = True,
            Temporary = False\<rparr>)"
proof -
  have h1: "\<not> As_ValidationError (New ''Dial tcp: Connection refused (Permission denied)'') \<and>
    has_keyword ToLower network_keywords (New ''Dial tcp: Connection refused (Permission denied)'') \<and>
    has_keyword ToLower auth_keywords (New ''Dial tcp: Connection refused (Permission denied)'')"
    by (simp add: has_keyword_def network_keywords_def auth_keywords_def ToLower_def lower_of_def ascii_lower_def ascii_upper_def)
  have h2: "\<not> As_ValidationError (New ''exit status 1'') \<and>
    \<not> has_keyword ToLower network_keywords (New ''exit status 1'') \<and>
    \<not> has_keyword ToLower timeout_keywords (New ''exit status 1'') \<and>
    \<not> has_keyword ToLower auth_keywords (New ''exit status 1'') \<and>
    \<not> has_keyword ToLower notfound_keywords (New ''exit status 1'') \<and>
    \<not> has_keyword ToLower space_keywords (New ''exit status 1'') \<and>
    \<not> has_keyword ToLower filesystem_keywords (New ''exit status 1'')"
    by (simp add: has_keyword_def network_keywords_def timeout_keywords_def auth_keywords_def
        notfound_keywords_def space_keywords_def filesystem_keywords_def ToLower_def lower_of_def ascii_lower_def ascii_upper_def)
  have a: "is_ascii ''Dial tcp: Connection refused (Permission denied)'' \<and>
           is_ascii ''exit status 1''"
    by (simp add: is_ascii_def)
  show ?thesis
    using ClassifyError_priority [of "New ''Dial tcp: Connection refused (Permission denied)''" ToLower]
      ClassifyError_priority [of "New ''exit status 1''" ToLower] h1 h2 a
    by blast
qed

section \<open>Properties of the argument vector\<close>

text \<open>C8. The argument vector is, in this order: the verb, \<open>-v\<close>, \<open>--stats\<close> and the
  interval (\<open>500ms\<close> when the option is empty), \<open>--dry-run\<close> exactly when the flag is set, the
  extra flags in their order, and source and destination as the last two arguments.\<close>

theorem Execute_args_shape:
  "Execute_args opts =
     [Command opts, ''-v'', ''--stats'',
      (if StatsInterval opts = '''' then ''500ms'' else StatsInterval opts)]
     @ (if DryRun opts then [''--dry-run''] else [])
     @ Flags opts
     @ [Source_opt opts, Destination_opt opts] \<and>
   length (Execute_args opts) = 6 + (if DryRun opts then 1 else 0) + length (Flags opts) \<and>
   hd (Execute_args opts) = Command opts \<and>
   take 4 (Execute_args opts) =
     [Command opts, ''-v'', ''--stats'',
      (if StatsInterval opts = '''' then ''500ms'' else StatsInterval opts)] \<and>
   drop 4 (Execute_args opts) =
     (if DryRun opts then [''--dry-run''] else []) @ Flags opts
     @ [Source_opt opts, Destination_opt opts] \<and>
   take 2 (rev (Execute_args opts)) = [Destination_opt opts, Source_opt opts]"
proof -
  have shape: "Execute_args opts =
     [Command opts, ''-v'', ''--stats'',
      (if StatsInterval opts = '''' then ''500ms'' else StatsInterval opts)]
     @ (if DryRun opts then [''--dry-run''] else [])
     @ Flags opts
     @ [Source_opt opts, Destination_opt opts]"
    by (simp add: Execute_args_def Let_def)
  show ?thesis
    unfolding shape by simp
qed

section \<open>Properties of the retry controller\<close>

lemma MaxAttempts_retry_validate:
  "MaxAttempts (retry_validate cfg) = (if MaxAttempts cfg \<le> 0 then 1 else MaxAttempts cfg)"
  by (simp add: retry_validate_def Let_def)

lemma Error_text_retry_failed:
  "Error_text (retry_failed cfg (Some e)) =
     ''failed after '' @ itoa (MaxAttempts cfg) @ '' attempts: '' @ Error_text e"
  by (simp add: retry_failed_def Errorf_w_def)

lemma Unwrap_retry_failed: "Unwrap (retry_failed cfg (Some e)) = Some e"
  by (simp add: retry_failed_def Errorf_w_def)

text \<open>From the head of iteration \<open>attempt\<close>, with every attempt failing and no cancellation,
  the loop goes through every remaining round (a call and a wait), makes the last call in the
  world those rounds lead to, and returns that call's failure from the statement after the
  loop.\<close>

lemma retry_loop_exhaust:
  assumes fail: "\<forall>w. fst (Execute env w) \<noteq> None"
    and nd: "\<forall>w. \<not> ctx_Done env w"
    and nw: "\<forall>d w. \<not> fst (wait env d w)"
  shows "n = nat (MaxAttempts cfg - attempt) \<Longrightarrow> attempt \<le> MaxAttempts cfg \<Longrightarrow>
         retry_loop env cfg attempt delay lastErr calls w =
           (Some (retry_failed cfg (fst (Execute env (retry_trace env cfg n delay w)))),
            calls + n + 1,
            snd (Execute env (retry_trace env cfg n delay w)))"
proof (induction n arbitrary: attempt delay lastErr calls w)
  case 0
  then have last: "attempt = MaxAttempts cfg" by simp
  obtain e w1 where ex: "Execute env w = (Some e, w1)"
    using fail by (metis option.exhaust prod.collapse)
  have "retry_loop env cfg attempt delay lastErr calls w =
          (Some (retry_failed cfg (Some e)), calls + 1, w1)"
    using last nd ex by (subst retry_loop.simps) simp
  then show ?case using ex by simp
next
  case (Suc n)
  then have notlast: "attempt \<noteq> MaxAttempts cfg" and le: "attempt \<le> MaxAttempts cfg"
    by auto
  obtain e w1 where ex: "Execute env w = (Some e, w1)"
    using fail by (metis option.exhaust prod.collapse)
  obtain w2 where wt: "wait env delay w1 = (False, w2)"
    using nw by (metis prod.collapse)
  have step: "retry_loop env cfg attempt delay lastErr calls w =
          retry_loop env cfg (attempt + 1) (next_delay (arch env) cfg delay) (Some e) (calls + 1) w2"
    using notlast le nd ex wt by (subst retry_loop.simps) simp
  have n: "n = nat (MaxAttempts cfg - (attempt + 1))" and le': "attempt + 1 \<le> MaxAttempts cfg"
    using Suc.prems by auto
  have tr: "retry_trace env cfg (Suc n) delay w =
              retry_trace env cfg n (next_delay (arch env) cfg delay) w2"
    using ex wt by simp
  show ?case
    unfolding step tr using Suc.IH [OF n le'] by simp
qed

lemma count_calls_trace:
  "snd (retry_trace (count_calls env) cfg k delay (w, c)) = c + k"
  by (induction k arbitrary: delay w c) (simp_all add: count_calls_def)

text \<open>C5. With \<open>MaxAttempts = N \<ge> 1\<close>, every attempt failing and no cancellation,
  \<open>ExecuteWithRetry\<close> goes through \<open>N - 1\<close> rounds of a call of \<open>Execute\<close> and a wait, calls
  \<open>Execute\<close> once more in the world these rounds lead to, and returns the error
  \<open>failed after N attempts: \<dots>\<close> that wraps the failure of that last call, leaving the world
  as that call left it. A counter that the world keeps of the calls of \<open>Execute\<close> goes up by
  exactly \<open>N\<close>.\<close>

theorem retry_exhaustion:
  assumes "1 \<le> MaxAttempts cfg"
    and "\<forall>w. fst (Execute env w) \<noteq> None"
    and "\<forall>w. \<not> ctx_Done env w"
    and "\<forall>d w. \<not> fst (wait env d w)"
  shows "\<exists>e. fst (Execute env (retry_trace env (retry_validate cfg) (nat (MaxAttempts cfg - 1))
                          (InitialDelay (retry_validate cfg)) w)) = Some e \<and>
           ExecuteWithRetry env cfg w =
             (Some (Errorf_w (''failed after '' @ itoa (MaxAttempts cfg) @ '' attempts: '') e),
              nat (MaxAttempts cfg),
              snd (Execute env (retry_trace env (retry_validate cfg) (nat (MaxAttempts cfg - 1))
                          (InitialDelay (retry_validate cfg)) w))) \<and>
           Error_text (Errorf_w (''failed after '' @ itoa (MaxAttempts cfg) @ '' attempts: '') e) =
             ''failed after '' @ itoa (MaxAttempts cfg) @ '' attempts: '' @ Error_text e \<and>
           Unwrap (Errorf_w (''failed after '' @ itoa (MaxAttempts cfg) @ '' attempts: '') e) = Some e \<and>
           snd (snd (snd (ExecuteWithRetry (count_calls env) cfg (w, c)))) = c + nat (MaxAttempts cfg)"
proof -
  define v where "v = retry_validate cfg"
  define n where "n = nat (MaxAttempts cfg - 1)"
  have m: "MaxAttempts v = MaxAttempts cfg"
    using assms(1) by (simp add: v_def MaxAttempts_retry_validate)
  have le: "1 \<le> MaxAttempts v" using assms(1) m by simp
  have nn: "n = nat (MaxAttempts v - 1)" by (simp add: n_def m)
  have total: "n + 1 = nat (MaxAttempts cfg)" using assms(1) by (simp add: n_def)
  define wN where "wN = retry_trace env v n (InitialDelay v) w"
  obtain e where e: "fst (Execute env wN) = Some e"
    using assms(2) by (metis option.exhaust)
  have run: "ExecuteWithRetry env cfg w = (Some (retry_failed v (Some e)), n + 1, snd (Execute env wN))"
    using retry_loop_exhaust [OF assms(2,3,4) nn le, of "InitialDelay v" None 0 w] e
    by (simp add: ExecuteWithRetry_def Let_def v_def [symmetric] wN_def)
  have shape: "retry_failed v (Some e) =
                 Errorf_w (''failed after '' @ itoa (MaxAttempts cfg) @ '' attempts: '') e"
    by (simp add: retry_failed_def m)
  have msg: "Error_text (retry_failed v (Some e)) =
               ''failed after '' @ itoa (MaxAttempts cfg) @ '' attempts: '' @ Error_text e"
    unfolding Error_text_retry_failed m ..
  have unwrap: "Unwrap (retry_failed v (Some e)) = Some e"
    by (rule Unwrap_retry_failed)
  have cfail: "\<forall>x. fst (Execute (count_calls env) x) \<noteq> None"
    using assms(2) by (simp add: count_calls_def split_beta)
  have cnd: "\<forall>x. \<not> ctx_Done (count_calls env) x"
    using assms(3) by (simp add: count_calls_def split_beta)
  have cnw: "\<forall>d x. \<not> fst (wait (count_calls env) d x)"
    using assms(4) by (simp add: count_calls_def split_beta)
  have "snd (snd (snd (ExecuteWithRetry (count_calls env) cfg (w, c)))) =
          snd (snd (Execute (count_calls env)
                      (retry_trace (count_calls env) v n (InitialDelay v) (w, c))))"
    using retry_loop_exhaust [OF cfail cnd cnw nn le, of "InitialDelay v" None 0 "(w, c)"]
    by (simp add: ExecuteWithRetry_def Let_def v_def [symmetric])
  also have "\<dots> = Suc (snd (retry_trace (count_calls env) v n (InitialDelay v) (w, c)))"
    by (simp add: count_calls_def split_beta)
  also have "\<dots> = c + nat (MaxAttempts cfg)"
    using total by (simp add: count_calls_trace)
  finally have counted:
    "snd (snd (snd (ExecuteWithRetry (count_calls env) cfg (w, c)))) = c + nat (MaxAttempts cfg)" .
  show ?thesis
    using e run shape msg unwrap counted total
    unfolding wN_def v_def n_def by auto
qed

lemma retry_trace_always_failing:
  "retry_trace always_failing cfg k delay w = w + k"
  by (induction k arbitrary: delay w) (simp_all add: always_failing_def)

theorem retry_exhaustion_witness:
  "1 \<le> MaxAttempts DefaultRetryConfig \<and>
   (\<forall>w. fst (Execute always_failing w) \<noteq> None) \<and>
   (\<forall>w. \<not> ctx_Done always_failing w) \<and>
   (\<forall>d w. \<not> fst (wait always_failing d w)) \<and>
   ExecuteWithRetry always_failing DefaultRetryConfig 0 =
     (Some (Wrapped ''failed after 3 attempts: exit status 3'' (New ''exit status 3'')), 3, 3) \<and>
   snd (snd (snd (ExecuteWithRetry (count_calls always_failing) DefaultRetryConfig (0, 0)))) = 3"
proof -
  have h1: "1 \<le> MaxAttempts DefaultRetryConfig"
    by (simp add: DefaultRetryConfig_def)
  have h2: "\<forall>w. fst (Execute always_failing w) \<noteq> None"
    by (simp add: always_failing_def)
  have h3: "\<forall>w. \<not> ctx_Done always_failing w"
    by (simp add: always_failing_def)
  have h4: "\<forall>d w. \<not> fst (wait always_failing d w)"
    by (simp add: always_failing_def)
  have n: "MaxAttempts DefaultRetryConfig = 3" and i: "itoa 3 = ''3''"
    by (simp_all add: DefaultRetryConfig_def itoa_def itoa_nat.simps)
  have ex: "Execute always_failing 2 = (Some (New ''exit status 3''), 3)"
    by (simp add: always_failing_def itoa_def itoa_nat.simps)
  have tr: "retry_trace always_failing (retry_validate DefaultRetryConfig) 2
              (InitialDelay (retry_validate DefaultRetryConfig)) 0 = 2"
    by (simp add: retry_trace_always_failing)
  have two: "nat (3 - 1) = 2" by simp
  show ?thesis
    using retry_exhaustion [OF h1 h2 h3 h4, of 0 0] h1 h2 h3 h4
    unfolding n i two tr ex
    by (simp add: Errorf_w_def)
qed

text \<open>C6. At the zero value \<^verbatim>\<open>RetryConfig{}\<close> the attempts become 1, not the 3 that the
  comment of the field gives as its default and that \<open>DefaultRetryConfig\<close> supplies, while the
  three other unset fields get exactly the values of \<open>DefaultRetryConfig\<close>; the run makes a
  single attempt.\<close>

theorem retry_validate_unset_attempts:
  "MaxAttempts (retry_validate zero_RetryConfig) = 1 \<and>
   MaxAttempts DefaultRetryConfig = 3 \<and>
   InitialDelay (retry_validate zero_RetryConfig) = InitialDelay DefaultRetryConfig \<and>
   MaxDelay (retry_validate zero_RetryConfig) = MaxDelay DefaultRetryConfig \<and>
   Multiplier (retry_validate zero_RetryConfig) = Multiplier DefaultRetryConfig \<and>
   ExecuteWithRetry always_failing zero_RetryConfig 0 =
     (Some (Wrapped ''failed after 1 attempts: exit status 1'' (New ''exit status 1'')), 1, 1)"
  by (simp add: ExecuteWithRetry_def retry_validate_def zero_RetryConfig_def
      DefaultRetryConfig_def Second_def Let_def retry_loop.simps always_failing_def
      retry_failed_def Errorf_w_def itoa_def itoa_nat.simps word_sle_eq)

text \<open>What the four checks do to any configuration: a field that is zero or negative is
  replaced (the attempts by 1, the others by the values of \<open>DefaultRetryConfig\<close>), a positive
  one is kept, and the loop runs on the result.\<close>

lemma retry_validate_fields:
  "retry_validate cfg =
     \<lparr> MaxAttempts = (if MaxAttempts cfg \<le> 0 then 1 else MaxAttempts cfg),
       InitialDelay = (if sint (InitialDelay cfg) \<le> 0 then InitialDelay DefaultRetryConfig
                       else InitialDelay cfg),
       MaxDelay = (if sint (MaxDelay cfg) \<le> 0 then MaxDelay DefaultRetryConfig else MaxDelay cfg),
       Multiplier = (if float64_le (Multiplier cfg) (Finite 0) then Multiplier DefaultRetryConfig
                     else Multiplier cfg) \<rparr> \<and>
   sint (InitialDelay DefaultRetryConfig) = 2 * 10 ^ 9 \<and>
   sint (MaxDelay DefaultRetryConfig) = 30 * 10 ^ 9 \<and>
   Multiplier DefaultRetryConfig = Finite 2 \<and>
   ExecuteWithRetry env cfg w =
     retry_loop env (retry_validate cfg) 1 (InitialDelay (retry_validate cfg)) None 0 w"
  by (simp add: retry_validate_def DefaultRetryConfig_def Second_def Let_def word_sle_eq
      ExecuteWithRetry_def)

section \<open>Properties of the decoder\<close>

subsection \<open>Size parsing\<close>

lemma ascii_length: "length ascii_lower = length ascii_upper"
  by (simp add: ascii_lower_def ascii_upper_def)

lemma ascii_upper_not_lower: "c \<in> set ascii_upper \<Longrightarrow> c \<notin> set ascii_lower"
  by (simp add: ascii_lower_def ascii_upper_def) fastforce

lemma ascii_not_space: "isSpace c \<Longrightarrow> c \<notin> set ascii_lower \<and> c \<notin> set ascii_upper"
  by (simp add: ascii_lower_def ascii_upper_def isSpace_def) fastforce

lemma upper_of_cases:
  "(c \<notin> set ascii_lower \<and> upper_of c = c) \<or>
   (c \<in> set ascii_lower \<and> upper_of c \<in> set ascii_upper)"
proof (cases "map_of (zip ascii_lower ascii_upper) c")
  case None
  from map_of_zip_is_None [OF ascii_length, of c] None
  have "c \<notin> set ascii_lower" by blast
  then show ?thesis using None unfolding upper_of_def by simp
next
  case (Some u)
  then have "(c, u) \<in> set (zip ascii_lower ascii_upper)"
    by (rule map_of_SomeD)
  then have "c \<in> set ascii_lower \<and> u \<in> set ascii_upper"
    using set_zip_leftD set_zip_rightD by fast
  then show ?thesis using Some unfolding upper_of_def by simp
qed

lemma upper_of_upper: "c \<in> set ascii_upper \<Longrightarrow> upper_of c = c"
  using upper_of_cases [of c] ascii_upper_not_lower [of c] by blast

lemma upper_of_idem: "upper_of (upper_of c) = upper_of c"
  using upper_of_cases [of c] upper_of_upper [of "upper_of c"] by metis

lemma isSpace_upper_of: "isSpace (upper_of c) = isSpace c"
  using upper_of_cases [of c] ascii_not_space [of c] ascii_not_space [of "upper_of c"] by metis

lemma ToUpper_idem: "ToUpper (ToUpper u) = ToUpper u"
  by (simp add: ToUpper_def upper_of_idem)

lemma dropWhile_isSpace_ToUpper: "dropWhile isSpace (ToUpper u) = ToUpper (dropWhile isSpace u)"
  by (induction u) (simp_all add: ToUpper_def isSpace_upper_of)

lemma TrimSpace_ToUpper: "TrimSpace (ToUpper u) = ToUpper (TrimSpace u)"
proof -
  have r: "\<And>v. rev (ToUpper v) = ToUpper (rev v)" by (simp add: ToUpper_def rev_map)
  show ?thesis
    unfolding TrimSpace_def dropWhile_isSpace_ToUpper r ..
qed

lemma model_golib_sel:
  "lib_ParseFloat (model_golib conv) = ParseFloat" "lib_ToUpper (model_golib conv) = ToUpper"
  "lib_TrimSpace (model_golib conv) = TrimSpace" "lib_int64 (model_golib conv) = conv"
  by (simp_all add: model_golib_def)

lemma is_ascii_upper_of: "\<not> digit7 (upper_of c) \<Longrightarrow> \<not> digit7 c"
proof -
  have "list_all (\<lambda>c. \<not> digit7 c) ascii_lower"
    by (simp add: ascii_lower_def)
  then have "c \<in> set ascii_lower \<Longrightarrow> \<not> digit7 c"
    by (simp add: list_all_iff)
  then show "\<not> digit7 (upper_of c) \<Longrightarrow> \<not> digit7 c"
    using upper_of_cases [of c] by metis
qed

lemma is_ascii_ToUpper: "is_ascii (ToUpper u) \<Longrightarrow> is_ascii u"
  by (induction u) (auto simp: is_ascii_def ToUpper_def dest: is_ascii_upper_of)

lemma is_ascii_TrimSpace: "is_ascii u \<Longrightarrow> is_ascii (TrimSpace u)"
proof -
  assume a: "is_ascii u"
  have d: "\<And>P xs. set (dropWhile P xs) \<subseteq> set (xs :: string)"
    by (auto dest: set_dropWhileD)
  have "set (TrimSpace u) \<subseteq> set (dropWhile isSpace u)"
    unfolding TrimSpace_def using d [of isSpace "rev (dropWhile isSpace u)"] by simp
  then have "set (TrimSpace u) \<subseteq> set u"
    using d [of isSpace u] by blast
  then show ?thesis using a by (auto simp: is_ascii_def list_all_iff)
qed

text \<open>With the library as documented, \<open>parseSize\<close> on a string of digits and dots and an
  ASCII unit is \<open>parseSize\<close> with the three functions of this theory.\<close>

lemma parseSize_conforming:
  assumes "golib_ok lib" and "decimal_text v" and "is_ascii u"
  shows "parseSize lib v u = parseSize (model_golib (lib_int64 lib)) v u"
proof -
  have pf: "lib_ParseFloat lib v = ParseFloat v"
    using assms(1,2) by (simp add: golib_ok_def)
  have tr: "lib_TrimSpace lib u = TrimSpace u"
    using assms(1,3) by (simp add: golib_ok_def)
  have up: "lib_ToUpper lib (TrimSpace u) = ToUpper (TrimSpace u)"
    using assms(1) is_ascii_TrimSpace [OF assms(3)] by (simp add: golib_ok_def)
  show ?thesis
    unfolding parseSize_def pf tr up model_golib_sel ..
qed

text \<open>\<open>parseSize\<close> with the functions of this theory reads the unit through \<open>ToUpper\<close>
  only.\<close>

lemma parseSize_ToUpper:
  "parseSize (model_golib conv) v (ToUpper u) = parseSize (model_golib conv) v u"
proof -
  have eq: "ToUpper (TrimSpace (ToUpper u)) = ToUpper (TrimSpace u)"
    by (simp add: TrimSpace_ToUpper ToUpper_idem)
  show ?thesis
    unfolding parseSize_def model_golib_sel eq ..
qed

lemma ParseFloat_one_and_a_half: "ParseFloat ''1.5'' = Inr (Finite (3 / 2))"
  by (simp add: ParseFloat_def isDigit_def digit_value_def Let_def round_to_float64_three_halves)

lemma ParseFloat_examples:
  "ParseFloat ''50'' = Inr (Finite 50)"
  "ParseFloat ''512.0'' = Inr (Finite 512)"
  "ParseFloat ''1.0'' = Inr (Finite 1)"
  by (simp_all add: ParseFloat_def isDigit_def digit_value_def Let_def round_to_float64_numeral
      round_to_float64_one)

lemmas parseSize_eval =
  parseSize_def model_golib_def ParseFloat_one_and_a_half ParseFloat_examples ToUpper_def
  upper_of_def ascii_lower_def ascii_upper_def TrimSpace_def isSpace_def TrimSuffix_def Let_def
  float64_of_int64_def round_to_float64_numeral round_to_float64_one
  round_to_float64_three_halves int64_of_float64_def floor_three_halves suffix_to_prefix

lemma parseSize_bytes:
  "parseSize (model_golib conv) ''1.5'' [] = 1" "parseSize (model_golib conv) ''1.5'' ''B'' = 1"
  by (simp_all add: parseSize_eval)

lemma parseSize_K:
  "parseSize (model_golib conv) ''1.5'' ''K'' = 1536"
  "parseSize (model_golib conv) ''1.5'' ''KB'' = 1536"
  "parseSize (model_golib conv) ''1.5'' ''KIB'' = 1536"
  by (simp_all add: parseSize_eval)

lemma parseSize_M:
  "parseSize (model_golib conv) ''1.5'' ''M'' = 1572864"
  "parseSize (model_golib conv) ''1.5'' ''MB'' = 1572864"
  "parseSize (model_golib conv) ''1.5'' ''MIB'' = 1572864"
  by (simp_all add: parseSize_eval)

lemma parseSize_G:
  "parseSize (model_golib conv) ''1.5'' ''G'' = 1610612736"
  "parseSize (model_golib conv) ''1.5'' ''GB'' = 1610612736"
  "parseSize (model_golib conv) ''1.5'' ''GIB'' = 1610612736"
  by (simp_all add: parseSize_eval)

lemma golib_ok_model: "golib_ok (model_golib conv)"
  by (simp add: golib_ok_def model_golib_def)

text \<open>C4, as stated, fails for the byte-level units: the result is an \<^verbatim>\<open>int64\<close>, so
  \<open>1.5\<close> bytes are truncated to 1.\<close>

theorem parseSize_counterexample:
  "parseSize (model_golib conv_amd64) ''1.5'' ''B'' = 1 \<and>
   rat_of_int (sint (parseSize (model_golib conv_amd64) ''1.5'' ''B'')) \<noteq> 3 / 2 * 1024 ^ 0"
  by (simp add: parseSize_bytes)

text \<open>C4, amended. With the library as documented, for the numeric string \<open>1.5\<close> and a unit
  that is, in any letter case, one of B, K, KB, KiB, M, MB, MiB, G, GB, GiB or empty,
  \<open>parseSize\<close> returns \<open>1.5 * 1024^n\<close> truncated to an integer, \<open>n\<close> being the binary order of
  the unit: exactly \<open>1.5 * 1024^n\<close> (1536, 1572864, 1610612736) for the K, M and G forms and 1
  for B and for the empty unit, which behave alike.\<close>

theorem parseSize_one_and_a_half:
  assumes "golib_ok lib" and "unit_order (ToUpper u) = Some n"
  shows "parseSize lib ''1.5'' u = [1, 1536, 1572864, 1610612736] ! n \<and>
         sint (parseSize lib ''1.5'' u) = \<lfloor>3 / 2 * 1024 ^ n :: rat\<rfloor> \<and>
         rat_of_int (sint (parseSize lib ''1.5'' u)) = (if n = 0 then 1 else 3 / 2 * 1024 ^ n) \<and>
         (if n = 0 then parseSize lib ''1.5'' u = parseSize lib ''1.5'' ''B'' \<and>
                        parseSize lib ''1.5'' [] = parseSize lib ''1.5'' ''B''
          else True)"
proof -
  define conv where "conv = lib_int64 lib"
  have dec: "decimal_text ''1.5''"
    by (simp add: decimal_text_def isDigit_def digit_value_def)
  have unit: "(n = 0 \<and> ToUpper u \<in> set [[], ''B'']) \<or>
              (n = 1 \<and> ToUpper u \<in> set [''K'', ''KB'', ''KIB'']) \<or>
              (n = 2 \<and> ToUpper u \<in> set [''M'', ''MB'', ''MIB'']) \<or>
              (n = 3 \<and> ToUpper u \<in> set [''G'', ''GB'', ''GIB''])"
    using assms(2) unfolding unit_order_def by (auto split: if_splits)
  then have "is_ascii (ToUpper u)"
    by (auto simp: is_ascii_def)
  then have asc: "is_ascii u" by (rule is_ascii_ToUpper)
  have up: "parseSize lib ''1.5'' u = parseSize (model_golib conv) ''1.5'' (ToUpper u)"
    using parseSize_conforming [OF assms(1) dec asc] parseSize_ToUpper [of conv "''1.5''" u]
    by (simp add: conv_def)
  have bytes: "parseSize lib ''1.5'' ''B'' = 1" "parseSize lib ''1.5'' [] = 1"
    using parseSize_conforming [OF assms(1) dec, of "''B''"]
      parseSize_conforming [OF assms(1) dec, of "[]"] parseSize_bytes [of conv]
    by (simp_all add: conv_def is_ascii_def)
  from unit consider
      (b) "n = 0" "ToUpper u \<in> set [[], ''B'']"
    | (k) "n = 1" "ToUpper u \<in> set [''K'', ''KB'', ''KIB'']"
    | (m) "n = 2" "ToUpper u \<in> set [''M'', ''MB'', ''MIB'']"
    | (g) "n = 3" "ToUpper u \<in> set [''G'', ''GB'', ''GIB'']"
    by blast
  then show ?thesis
  proof cases
    case b
    then have "parseSize lib ''1.5'' u = 1"
      unfolding up using parseSize_bytes [of conv] by auto
    then show ?thesis using b(1) bytes by (simp add: floor_three_halves)
  next
    case k
    then have "parseSize lib ''1.5'' u = 1536"
      unfolding up using parseSize_K [of conv] by auto
    then show ?thesis using k(1) by simp
  next
    case m
    then have "parseSize lib ''1.5'' u = 1572864"
      unfolding up using parseSize_M [of conv] by auto
    then show ?thesis using m(1) by simp
  next
    case g
    then have "parseSize lib ''1.5'' u = 1610612736"
      unfolding up using parseSize_G [of conv] by auto
    then show ?thesis using g(1) by simp
  qed
qed

theorem parseSize_one_and_a_half_witness:
  "golib_ok (model_golib conv_amd64) \<and>
   unit_order (ToUpper ''kIb'') = Some 1 \<and>
   parseSize (model_golib conv_amd64) ''1.5'' ''kIb'' = 1536 \<and>
   unit_order (ToUpper []) = Some 0 \<and> parseSize (model_golib conv_amd64) ''1.5'' [] = 1"
proof -
  have ok: "golib_ok (model_golib conv_amd64)" by (rule golib_ok_model)
  have h1: "unit_order (ToUpper ''kIb'') = Some 1"
    by (simp add: unit_order_def ToUpper_def upper_of_def ascii_lower_def ascii_upper_def)
  have h0: "unit_order (ToUpper []) = Some 0"
    by (simp add: unit_order_def ToUpper_def)
  show ?thesis
    using parseSize_one_and_a_half [OF ok h1] parseSize_one_and_a_half [OF ok h0] ok h1 h0
    by simp
qed

subsection \<open>The tokenizer\<close>

lemma IndexAny_None_iff: "IndexAny s cs = None \<longleftrightarrow> set s \<inter> set cs = {}"
  by (induction s) auto

lemma IndexAny_Some_nth: "IndexAny s cs = Some i \<Longrightarrow> s ! i \<in> set cs"
  by (induction s arbitrary: i) (auto split: if_splits)

lemma IndexAny_append_found: "IndexAny a cs = Some i \<Longrightarrow> IndexAny (a @ b) cs = Some i"
  by (induction a arbitrary: i) (auto split: if_splits)

lemma IndexAny_append_none:
  "IndexAny a cs = None \<Longrightarrow> IndexAny b cs = None \<Longrightarrow> IndexAny (a @ b) cs = None"
  by (simp add: IndexAny_None_iff Int_Un_distrib2)

lemma IndexAny_append_later:
  "IndexAny a cs = None \<Longrightarrow> IndexAny b cs = Some j \<Longrightarrow> IndexAny (a @ b) cs = Some (length a + j)"
  by (induction a) (auto split: if_splits)

lemma split_found:
  assumes "IndexAny data [CR, LF] = Some i"
  shows "split data e =
           ((if i + 1 < length data \<and> data ! i = CR \<and> data ! (i + 1) = LF then i + 2 else i + 1),
            Some (take i data))"
  using assms IndexAny_less [OF assms] by (auto simp: split_def Let_def)

lemma split_none:
  assumes "IndexAny data [CR, LF] = None"
  shows "split data False = (0, None)"
    and "data \<noteq> [] \<Longrightarrow> split data True = (length data, Some data)"
    and "data = [] \<Longrightarrow> split data True = (0, None)"
  using assms by (auto simp: split_def)

lemma Scan_token:
  assumes "buf s \<noteq> [] \<or> atEOF s" and "split (buf s) (atEOF s) = (adv, Some tok)"
  shows "Scan s = Some (tok, s\<lparr>buf := drop adv (buf s)\<rparr>)"
  using assms by (subst Scan.simps) auto

lemma Scan_no_token:
  assumes "\<not> atEOF s" and "IndexAny (buf s) [CR, LF] = None"
  shows "(if buf s \<noteq> [] \<or> atEOF s then split (buf s) (atEOF s) else (0, None)) = (0, None)"
  using assms split_none(1) [OF assms(2)] by simp

lemma Scan_read:
  assumes "\<not> atEOF s" and "IndexAny (buf s) [CR, LF] = None"
    and "length (buf s) < maxTokenSize" and "src s = block # blocks"
  shows "Scan s = Scan (s\<lparr>buf := buf s @ block, src := blocks\<rparr>)"
proof -
  have small: "\<not> maxTokenSize \<le> length (buf s)" using assms(3) by simp
  show ?thesis
    by (subst Scan.simps, simp only: Scan_no_token [OF assms(1,2)], simp add: assms(1,4) small)
qed

lemma Scan_end_of_stream:
  assumes "\<not> atEOF s" and "IndexAny (buf s) [CR, LF] = None"
    and "length (buf s) < maxTokenSize" and "src s = []"
  shows "Scan s = Scan (s\<lparr>atEOF := True\<rparr>)"
proof -
  have small: "\<not> maxTokenSize \<le> length (buf s)" using assms(3) by simp
  show ?thesis
    by (subst Scan.simps, simp only: Scan_no_token [OF assms(1,2)], simp add: assms(1,4) small)
qed


lemma Scan_done:
  assumes "atEOF s" and "buf s = []"
  shows "Scan s = None"
  using assms by (subst Scan.simps) (simp add: split_def)

lemma logical_lines_none:
  "IndexAny s [CR, LF] = None \<Longrightarrow> logical_lines s = (if s = [] then [] else [s])"
  by (subst logical_lines.simps) simp

lemma logical_lines_some:
  "IndexAny s [CR, LF] = Some i \<Longrightarrow>
     logical_lines s = take i s # logical_lines (drop (i + terminator_length s i) s)"
  by (subst logical_lines.simps) simp

lemma no_split_pair_drop: "no_split_pair (a @ b) blocks \<Longrightarrow> no_split_pair b blocks"
proof (induction blocks arbitrary: a b)
  case Nil
  then show ?case by simp
next
  case (Cons block blocks)
  from Cons.prems have 1: "\<not> (a @ b \<noteq> [] \<and> last (a @ b) = CR \<and> concat (block # blocks) \<noteq> [] \<and>
         hd (concat (block # blocks)) = LF)"
    and 2: "no_split_pair (a @ (b @ block)) blocks"
    by simp_all
  have "no_split_pair (b @ block) blocks" using Cons.IH [OF 2] .
  moreover have "\<not> (b \<noteq> [] \<and> last b = CR \<and> concat (block # blocks) \<noteq> [] \<and>
         hd (concat (block # blocks)) = LF)"
    using 1 by (cases "b = []") auto
  ultimately show ?case by simp
qed

lemma maxTokenSize_pos: "0 < maxTokenSize"
  by (simp add: maxTokenSize_def)

lemma first_line_covers:
  assumes "IndexAny b [CR, LF] = None" and "b \<noteq> []"
  shows "\<exists>l ls. logical_lines (b @ t) = l # ls \<and> length b \<le> length l"
proof (cases "IndexAny t [CR, LF]")
  case None
  have "IndexAny (b @ t) [CR, LF] = None"
    using IndexAny_append_none [OF assms(1) None] .
  then have "logical_lines (b @ t) = [b @ t]"
    using assms(2) by (simp add: logical_lines_none)
  then show ?thesis by simp
next
  case (Some j)
  have full: "IndexAny (b @ t) [CR, LF] = Some (length b + j)"
    using IndexAny_append_later [OF assms(1) Some] .
  have "j < length t" using IndexAny_less [OF Some] .
  then have "length (take (length b + j) (b @ t)) = length b + j" by simp
  then show ?thesis
    using logical_lines_some [OF full] by (metis le_add1)
qed

lemma pending_short:
  assumes "scan_ok s" and "IndexAny (buf s) [CR, LF] = None"
  shows "length (buf s) < maxTokenSize"
proof (cases "buf s = []")
  case True
  then show ?thesis by (simp add: maxTokenSize_pos)
next
  case False
  obtain l ls where ll: "logical_lines (buf s @ concat (src s)) = l # ls"
    and le: "length (buf s) \<le> length l"
    using first_line_covers [OF assms(2) False] by blast
  have "length l < maxTokenSize"
    using assms(1) ll by (simp add: scan_ok_def pending_def)
  then show ?thesis using le by simp
qed

lemma scan_refines_same:
  "Scan s = Scan s2 \<Longrightarrow> pending s = pending s2 \<Longrightarrow> scan_refines s2 \<Longrightarrow> scan_refines s"
  unfolding scan_refines_def by (simp split: list.splits option.splits)

lemma Scan_step_token:
  assumes ok: "scan_ok s" and i: "IndexAny (buf s) [CR, LF] = Some i"
  shows "scan_refines s"
proof -
  define b where "b = buf s"
  define t where "t = concat (src s)"
  define adv where
    "adv = (if i + 1 < length b \<and> b ! i = CR \<and> b ! (i + 1) = LF then i + 2 else i + 1)"
  have il: "i < length b" using IndexAny_less [OF i] by (simp add: b_def)
  have ne: "b \<noteq> []" using il by auto
  have adv_le: "adv \<le> length b" using il by (auto simp: adv_def)
  have sp: "split b (atEOF s) = (adv, Some (take i b))"
    using split_found [OF i] by (simp add: adv_def b_def)
  have scan: "Scan s = Some (take i b, s\<lparr>buf := drop adv b\<rparr>)"
    using Scan_token [of s adv "take i b"] sp ne by (simp add: b_def)
  have full: "IndexAny (b @ t) [CR, LF] = Some i"
    using IndexAny_append_found [OF i] by (simp add: b_def)
  have tl: "i + terminator_length (b @ t) i = adv"
  proof (cases "i + 1 < length b")
    case True
    then show ?thesis
      using il by (simp add: terminator_length_def adv_def nth_append)
  next
    case False
    then have last: "i + 1 = length b" using il by simp
    have "\<not> (b ! i = CR \<and> t \<noteq> [] \<and> t ! 0 = LF)"
    proof
      assume a: "b ! i = CR \<and> t \<noteq> [] \<and> t ! 0 = LF"
      then obtain block blocks where src: "src s = block # blocks"
        by (cases "src s") (auto simp: t_def)
      have "length b - 1 = i" using last by simp
      then have "last b = b ! i" using ne by (simp add: last_conv_nth)
      moreover have "hd t = t ! 0" using a by (simp add: hd_conv_nth)
      moreover have "\<not> (b \<noteq> [] \<and> last b = CR \<and> t \<noteq> [] \<and> hd t = LF)"
        using ok src unfolding scan_ok_def b_def t_def by simp
      ultimately show False using a ne by simp
    qed
    then show ?thesis
      using last il by (auto simp: terminator_length_def adv_def nth_append)
  qed
  have ll: "logical_lines (pending s) = take i b # logical_lines (drop adv b @ t)"
    using logical_lines_some [OF full] tl adv_le il by (simp add: pending_def b_def t_def)
  have pend': "pending (s\<lparr>buf := drop adv b\<rparr>) = drop adv b @ t"
    by (simp add: pending_def t_def)
  have "no_split_pair (take adv b @ drop adv b) (src s)"
    using ok by (simp add: scan_ok_def b_def)
  then have ns: "no_split_pair (drop adv b) (src s)"
    by (rule no_split_pair_drop)
  have short: "list_all (\<lambda>l. length l < maxTokenSize) (logical_lines (drop adv b @ t))"
    using ok ll by (simp add: scan_ok_def)
  have ok': "scan_ok (s\<lparr>buf := drop adv b\<rparr>)"
    using ok ns short unfolding scan_ok_def pend' by simp
  show ?thesis
    unfolding scan_refines_def ll scan using ok' pend' by simp
qed

lemma Scan_step_at_end:
  assumes ok: "scan_ok s" and e: "atEOF s"
  shows "scan_refines s"
proof (cases "IndexAny (buf s) [CR, LF]")
  case (Some i)
  then show ?thesis using Scan_step_token [OF ok] by blast
next
  case None
  have src: "src s = []" using ok e by (simp add: scan_ok_def)
  then have pend: "pending s = buf s" by (simp add: pending_def)
  show ?thesis
  proof (cases "buf s = []")
    case True
    then show ?thesis
      using Scan_done [OF e True] pend None by (simp add: scan_refines_def logical_lines_none)
  next
    case False
    have sp: "split (buf s) (atEOF s) = (length (buf s), Some (buf s))"
      using split_none(2) [OF None False] e by simp
    have scan: "Scan s = Some (buf s, s\<lparr>buf := []\<rparr>)"
      using Scan_token [of s "length (buf s)" "buf s"] sp e by simp
    have ll: "logical_lines (pending s) = [buf s]"
      using None False pend by (simp add: logical_lines_none)
    have pend': "pending (s\<lparr>buf := []\<rparr>) = []" using src by (simp add: pending_def)
    have empty: "logical_lines [] = []" by (simp add: logical_lines_none)
    have ok': "scan_ok (s\<lparr>buf := []\<rparr>)"
      unfolding scan_ok_def pend' empty using src by simp
    show ?thesis
      unfolding scan_refines_def ll scan using ok' pend' empty by simp
  qed
qed

lemma Scan_step_reading:
  "scan_ok s \<Longrightarrow> \<not> atEOF s \<Longrightarrow> src s = blocks \<Longrightarrow> scan_refines s"
proof (induction blocks arbitrary: s)
  case Nil
  show ?case
  proof (cases "IndexAny (buf s) [CR, LF]")
    case (Some i)
    then show ?thesis using Scan_step_token [OF Nil.prems(1)] by blast
  next
    case None
    have short: "length (buf s) < maxTokenSize"
      using pending_short [OF Nil.prems(1) None] .
    have scan: "Scan s = Scan (s\<lparr>atEOF := True\<rparr>)"
      using Scan_end_of_stream [OF Nil.prems(2) None short Nil.prems(3)] .
    have pend: "pending s = pending (s\<lparr>atEOF := True\<rparr>)" by (simp add: pending_def)
    have "scan_ok (s\<lparr>atEOF := True\<rparr>)"
      using Nil.prems(1,3) unfolding scan_ok_def pend [symmetric] by simp
    then have "scan_refines (s\<lparr>atEOF := True\<rparr>)"
      by (rule Scan_step_at_end) simp
    then show ?thesis using scan_refines_same [OF scan pend] by blast
  qed
next
  case (Cons block blocks)
  show ?case
  proof (cases "IndexAny (buf s) [CR, LF]")
    case (Some i)
    then show ?thesis using Scan_step_token [OF Cons.prems(1)] by blast
  next
    case None
    define s2 where "s2 = s\<lparr>buf := buf s @ block, src := blocks\<rparr>"
    have short: "length (buf s) < maxTokenSize"
      using pending_short [OF Cons.prems(1) None] .
    have scan: "Scan s = Scan s2"
      using Scan_read [OF Cons.prems(2) None short Cons.prems(3)] by (simp add: s2_def)
    have pend: "pending s = pending s2"
      using Cons.prems(3) by (simp add: pending_def s2_def)
    have "scan_ok s2"
      using Cons.prems unfolding scan_ok_def pend [symmetric] by (simp add: s2_def)
    moreover have "\<not> atEOF s2" and "src s2 = blocks"
      using Cons.prems(2) by (simp_all add: s2_def)
    ultimately have "scan_refines s2" using Cons.IH by blast
    then show ?thesis using scan_refines_same [OF scan pend] by blast
  qed
qed

lemma Scan_step: "scan_ok s \<Longrightarrow> scan_refines s"
  using Scan_step_at_end Scan_step_reading by blast

lemma scan_tokens_pending: "scan_ok s \<Longrightarrow> scan_tokens s = logical_lines (pending s)"
proof (induction ls \<equiv> "logical_lines (pending s)" arbitrary: s)
  case Nil
  then have "Scan s = None"
    using Scan_step [OF Nil.prems] by (simp add: scan_refines_def)
  then show ?case using Nil.hyps by (subst scan_tokens.simps) simp
next
  case (Cons l ls)
  have r: "scan_refines s" using Scan_step [OF Cons.prems] .
  obtain token s' where scan: "Scan s = Some (token, s')"
    using r Cons.hyps(2) [symmetric] by (cases "Scan s") (auto simp: scan_refines_def)
  have tok: "token = l" and ok': "scan_ok s'" and rest: "ls = logical_lines (pending s')"
    using r Cons.hyps(2) [symmetric] scan by (simp_all add: scan_refines_def)
  have "scan_tokens s' = logical_lines (pending s')"
    using Cons.hyps(1) [OF rest ok'] .
  then show ?case
    using scan tok rest Cons.hyps(2) by (subst scan_tokens.simps) simp
qed

subsection \<open>Logical lines\<close>

text \<open>\<open>logical_lines\<close> by the shape of the stream: a line feed, a carriage return and line
  feed, and a carriage return not followed by a line feed each end one line; bytes without a
  terminator are a last line; the empty stream has no line.\<close>

lemma IndexAny_at:
  assumes "IndexAny l [CR, LF] = None" and "c = CR \<or> c = LF"
  shows "IndexAny (l @ c # rest) [CR, LF] = Some (length l)"
proof -
  have "IndexAny (c # rest) [CR, LF] = Some 0" using assms(2) by auto
  from IndexAny_append_later [OF assms(1) this] show ?thesis by simp
qed

lemma logical_lines_Nil: "logical_lines [] = []"
  by (simp add: logical_lines_none)

lemma logical_lines_last: "IndexAny l [CR, LF] = None \<Longrightarrow> l \<noteq> [] \<Longrightarrow> logical_lines l = [l]"
  by (simp add: logical_lines_none)


lemma logical_lines_CRLF:
  assumes "IndexAny l [CR, LF] = None"
  shows "logical_lines (l @ CR # LF # rest) = l # logical_lines rest"
proof -
  have i: "IndexAny (l @ CR # LF # rest) [CR, LF] = Some (length l)"
    using IndexAny_at [OF assms] by simp
  have t: "terminator_length (l @ CR # LF # rest) (length l) = 2"
    by (simp add: terminator_length_def nth_append)
  show ?thesis by (simp add: logical_lines_some [OF i] t)
qed

lemma logical_lines_CR:
  assumes "IndexAny l [CR, LF] = None" and "rest = [] \<or> hd rest \<noteq> LF"
  shows "logical_lines (l @ CR # rest) = l # logical_lines rest"
proof -
  have i: "IndexAny (l @ CR # rest) [CR, LF] = Some (length l)"
    using IndexAny_at [OF assms(1)] by simp
  have t: "terminator_length (l @ CR # rest) (length l) = 1"
    using assms(2) by (cases rest) (simp_all add: terminator_length_def nth_append)
  show ?thesis by (simp add: logical_lines_some [OF i] t)
qed

subsection \<open>The tokens of a stream\<close>

lemma scan_ok_NewScanner:
  assumes "no_split_pair [] reads"
    and "list_all (\<lambda>l. length l < maxTokenSize) (logical_lines (concat reads))"
  shows "scan_ok (NewScanner reads)"
  using assms by (simp add: scan_ok_def NewScanner_def pending_def)

lemma no_split_pair_no_LF: "LF \<notin> set (concat blocks) \<Longrightarrow> no_split_pair b blocks"
proof (induction blocks arbitrary: b)
  case Nil
  then show ?case by simp
next
  case (Cons block blocks)
  have "concat (block # blocks) \<noteq> [] \<Longrightarrow> hd (concat (block # blocks)) \<noteq> LF"
    using Cons.prems hd_in_set by metis
  moreover have "no_split_pair (b @ block) blocks"
    using Cons.IH Cons.prems by simp
  ultimately show ?case by auto
qed



lemma parse_loop_tokens:
  "parse_loop lib sc tid mgr = foldl (\<lambda>m line. handle_line lib line tid m) mgr (scan_tokens sc)"
proof (induction lib sc tid mgr rule: parse_loop.induct)
  case (1 lib sc tid mgr)
  show ?case
  proof (cases "Scan sc")
    case None
    then show ?thesis
      by (subst parse_loop.simps, subst scan_tokens.simps) simp
  next
    case (Some r)
    obtain line sc' where r: "r = (line, sc')" by (cases r)
    have scan: "Scan sc = Some (line, sc')" using Some r by simp
    have "parse_loop lib sc' tid (handle_line lib line tid mgr) =
            foldl (\<lambda>m line. handle_line lib line tid m) (handle_line lib line tid mgr)
              (scan_tokens sc')"
      using "1.IH" [OF scan refl] .
    then show ?thesis
      by (subst parse_loop.simps, subst scan_tokens.simps) (simp add: scan)
  qed
qed

subsection \<open>Examples and the progress line\<close>


lemma logical_lines_reads_split_pair: "logical_lines (concat reads_split_pair) = [''a'', ''b'']"
  by (simp add: reads_split_pair_def logical_lines.simps terminator_length_def CR_def LF_def)

lemma scan_tokens_reads_split_pair: "scan_tokens (NewScanner reads_split_pair) = [''a'', [], ''b'']"
  by (simp add: reads_split_pair_def scan_tokens.simps Scan.simps split_def NewScanner_def
      maxTokenSize_def CR_def LF_def Let_def)

lemma progress_line_not_empty: "progress_line \<noteq> []" by (simp add: progress_line_def)

lemma progress_line_plain: "IndexAny progress_line [CR, LF] = None"
  by (simp add: progress_line_def CR_def LF_def)

lemma progress_line_short: "length progress_line < maxTokenSize"
  by (simp add: progress_line_def maxTokenSize_def)

lemma progress_line_match:
  "FindStringSubmatch statsRegex 6 progress_line =
     [''Transferred:   512.0 MiB / 1.0 GiB, 50%'', ''512.0'', ''MiB'', ''1.0'', ''GiB'', ''50'']"
  by code_simp

lemma handle_progress_line:
  assumes "golib_ok lib"
  shows "handle_line lib progress_line tid mgr =
           UpdateProgress mgr tid (Finite 50) 536870912 1073741824"
proof -
  define conv where "conv = lib_int64 lib"
  have dec: "decimal_text ''50''" "decimal_text ''512.0''" "decimal_text ''1.0''"
    by (simp_all add: decimal_text_def isDigit_def digit_value_def)
  have p: "lib_ParseFloat lib ''50'' = Inr (Finite 50)"
    using assms dec(1) by (simp add: golib_ok_def ParseFloat_examples)
  have "parseSize (model_golib conv) ''512.0'' ''MiB'' = 536870912"
    by (simp add: parseSize_eval)
  then have c: "parseSize lib ''512.0'' ''MiB'' = 536870912"
    using parseSize_conforming [OF assms dec(2), of "''MiB''"] by (simp add: conv_def is_ascii_def)
  have "parseSize (model_golib conv) ''1.0'' ''GiB'' = 1073741824"
    by (simp add: parseSize_eval)
  then have t: "parseSize lib ''1.0'' ''GiB'' = 1073741824"
    using parseSize_conforming [OF assms dec(3), of "''GiB''"] by (simp add: conv_def is_ascii_def)
  show ?thesis
    unfolding handle_line_def progress_line_match Let_def by (simp add: progress_line_not_empty p c t)
qed




text \<open>When the carriage return is the last byte of one read and the line feed the first of
  the next, the split function has no line feed to look at: it ends the line at the carriage
  return, and the line feed gives an empty token of its own.\<close>

lemma scan_tokens_split_pair:
  "scan_tokens (NewScanner reads_split_pair) = [''a'', [], ''b''] \<and>
   logical_lines (concat reads_split_pair) = [''a'', ''b'']"
  by (simp add: scan_tokens_reads_split_pair logical_lines_reads_split_pair)

text \<open>C2. With the library as documented, when the stream is the progress line followed by
  a carriage return, in whatever blocks it arrives, and the store has a record for \<open>t1\<close>,
  then after \<open>parseRcloneOutput\<close> the record of \<open>t1\<close> has Progress 50, BytesCopied 536870912
  and BytesTotal 1073741824, and is otherwise as before.\<close>

theorem parseRcloneOutput_progress_line:
  assumes "golib_ok lib" and "concat reads = progress_line @ [CR]"
    and "Get mgr ''t1'' = Some t0"
  shows "Get (parseRcloneOutput lib reads ''t1'' mgr) ''t1'' =
           Some (t0\<lparr>Progress := Finite 50, BytesCopied := 536870912, BytesTotal := 1073741824\<rparr>)"
proof -
  have lines: "logical_lines (concat reads) = [progress_line]"
    unfolding assms(2) using logical_lines_CR [OF progress_line_plain, of "[]"] by (simp add: logical_lines_Nil)
  have "LF \<notin> set (concat reads)"
    unfolding assms(2) using progress_line_plain by (auto simp: IndexAny_None_iff CR_def LF_def)
  then have nsp: "no_split_pair [] reads" by (rule no_split_pair_no_LF)
  have short: "list_all (\<lambda>l. length l < maxTokenSize) (logical_lines (concat reads))"
    unfolding lines using progress_line_short by simp
  have "scan_tokens (NewScanner reads) = [progress_line]"
    using scan_tokens_pending [OF scan_ok_NewScanner [OF nsp short]] lines
    by (simp add: pending_def NewScanner_def)
  then have "parseRcloneOutput lib reads ''t1'' mgr =
               UpdateProgress mgr ''t1'' (Finite 50) 536870912 1073741824"
    unfolding parseRcloneOutput_def parse_loop_tokens
    by (simp add: handle_progress_line [OF assms(1)])
  then show ?thesis using assms(3) by (simp add: Get_UpdateProgress)
qed

theorem parseRcloneOutput_progress_line_witness:
  "golib_ok (model_golib conv_amd64) \<and>
   concat [take 20 progress_line, drop 20 progress_line @ [CR]] = progress_line @ [CR] \<and>
   Get (Start store_t1 ''t1'' 7) ''t1'' =
     Some ((new_transfer ''t1'' ''src'' ''dst'')\<lparr>Status := StatusInProgress, StartTime := 7\<rparr>) \<and>
   Get (parseRcloneOutput (model_golib conv_amd64)
          [take 20 progress_line, drop 20 progress_line @ [CR]] ''t1'' (Start store_t1 ''t1'' 7)) ''t1'' =
     Some \<lparr>ID = ''t1'', Source = ''src'', Destination = ''dst'', Status = StatusInProgress,
           Progress = Finite 50, BytesTotal = 1073741824, BytesCopied = 536870912,
           StartTime = 7, EndTime = 0, Error = None\<rparr>"
proof -
  have ok: "golib_ok (model_golib conv_amd64)" by (rule golib_ok_model)
  have c: "concat [take 20 progress_line, drop 20 progress_line @ [CR]] = progress_line @ [CR]"
    by simp
  have g: "Get (Start store_t1 ''t1'' 7) ''t1'' =
     Some ((new_transfer ''t1'' ''src'' ''dst'')\<lparr>Status := StatusInProgress, StartTime := 7\<rparr>)"
    by (simp add: Get_Start Get_store_t1)
  show ?thesis
    using parseRcloneOutput_progress_line [OF ok c g] ok c g
    by (simp add: new_transfer_def)
qed

end
